theory Spec2Isabelle
  imports Main
begin

section \<open>Python values used by the processor parser\<close>

text \<open>
  The exceptions that the modelled functions of \<^verbatim>\<open>dax/processor_parser.py\<close> can
  raise. A function that can raise returns \<open>error + 'a\<close>, with \<open>Inl\<close> for the exception.
\<close>

datatype error = ValueError | KeyError | IndexError | TypeError | UnboundLocalError

text \<open>
  A Python \<^verbatim>\<open>dict\<close> is an association list in insertion order. A lookup \<^verbatim>\<open>d[k]\<close> is
  \<open>map_of d k\<close>, with \<open>None\<close> where Python raises \<^verbatim>\<open>KeyError\<close>. \<open>dict_set\<close> is
  \<^verbatim>\<open>d[k] = v\<close>: an existing key keeps its position and takes the new value, a new key
  goes to the end. \<open>dict_eq\<close> is \<^verbatim>\<open>d1 == d2\<close>: the same number of keys, and every key
  of the first bound to an equal value in the second.
\<close>

type_synonym ('k, 'v) dict = "('k \<times> 'v) list"

fun dict_set :: "('k, 'v) dict \<Rightarrow> 'k \<Rightarrow> 'v \<Rightarrow> ('k, 'v) dict" where
  "dict_set [] k v = [(k, v)]"
| "dict_set ((k', v') # d) k v =
     (if k' = k then (k, v) # d else (k', v') # dict_set d k v)"

definition dict_eq :: "('k, 'v) dict \<Rightarrow> ('k, 'v) dict \<Rightarrow> bool" where
  "dict_eq a b \<longleftrightarrow>
     length a = length b \<and> list_all (\<lambda>(k, v). map_of b k = Some v) a"

text \<open>
  \<^verbatim>\<open>s.split(sep)\<close> for a one-character separator: the pieces between the separators,
  empty pieces included, so the result is never empty.
\<close>

fun split_acc :: "char \<Rightarrow> string \<Rightarrow> string \<Rightarrow> string list" where
  "split_acc c cur [] = [cur]"
| "split_acc c cur (x # xs) =
     (if x = c then cur # split_acc c [] xs else split_acc c (cur @ [x]) xs)"

definition str_split :: "char \<Rightarrow> string \<Rightarrow> string list" where
  "str_split c s = split_acc c [] s"

text \<open>
  \<^verbatim>\<open>itertools.product(*dims)\<close>: every choice of one element per dimension, the first
  dimension varying slowest.
\<close>

fun itertools_product :: "'a list list \<Rightarrow> 'a list list" where
  "itertools_product [] = [[]]"
| "itertools_product (d # ds) =
     concat (map (\<lambda>x. map (\<lambda>t. x # t) (itertools_product ds)) d)"

section \<open>Data model\<close>

text \<open>
  \<^verbatim>\<open>SelectSessionParameters\<close>, the resource entries of an input, and the dictionary
  that \<^verbatim>\<open>parse_inputs\<close> stores per input name. \<open>select\<close> is the list returned by
  \<^verbatim>\<open>_get_args\<close>: the mode token followed by its arguments, all of them strings.
\<close>

record select_session_parameters =
  mode :: string
  delta :: int

record resource_spec =
  resource :: string
  varname :: "string option"
  res_required :: "bool option"

record input_spec =
  types :: "string list"
  select :: "string list"
  select_session :: select_session_parameters
  artefact_type :: string
  needs_qc :: bool
  resources :: "resource_spec list"
  required :: bool

text \<open>
  A cached scan or assessor object of the imaging store, with the methods the modelled
  functions call: \<^verbatim>\<open>full_path()\<close>, \<^verbatim>\<open>type()\<close>, \<^verbatim>\<open>label()\<close> and \<^verbatim>\<open>get_inputs()\<close>, which
  yields the recorded input mapping or \<^verbatim>\<open>None\<close>. \<^verbatim>\<open>bytes\<close> and \<^verbatim>\<open>str\<close> are both
  \<open>string\<close>, so \<^verbatim>\<open>encode\<close> and \<^verbatim>\<open>decode\<close> are the identity.
\<close>

record xnat_object =
  full_path :: string
  otype :: string
  label :: string
  get_inputs :: "(string, string) dict option"

text \<open>
  \<^verbatim>\<open>ParserArtefact\<close>, the value of the artefact catalogue under a path. The modelled
  functions read its \<^verbatim>\<open>entity\<close> only; the resource listing is kept as the list of its
  labels.
\<close>

record parser_artefact =
  name :: string
  path :: string
  art_resources :: "string list"
  entity :: xnat_object

text \<open>
  A session, with its scans, its assessors and its \<^verbatim>\<open>creation_timestamp_\<close> (here
  without the final underscore), of any linearly ordered type.
\<close>

record 't session =
  creation_timestamp :: 't
  scans :: "xnat_object list"
  assessors :: "xnat_object list"

text \<open>
  A value of a parameter row: one candidate (an artefact path, or \<^verbatim>\<open>None\<close> for an
  optional input without artefacts), or a list of candidates for a multi-valued input.
\<close>

datatype pyval = Item "string option" | Items "string option list"

type_synonym parameter_row = "(string, pyval) dict"

section \<open>Parameter matrix generation\<close>

text \<open>
  The gate of \<^verbatim>\<open>generate_parameter_matrix\<close>: the loop returns early (\<open>Inr False\<close>)
  at the first input without candidates whose \<^verbatim>\<open>required\<close> is \<^verbatim>\<open>True\<close>.
\<close>

fun inputs_present ::
  "(string, input_spec) dict \<Rightarrow> (string, string list) dict \<Rightarrow> error + bool" where
  "inputs_present [] abi = Inr True"
| "inputs_present ((i, iv) # rest) abi =
     (case map_of abi i of
        None \<Rightarrow> Inl KeyError
      | Some c \<Rightarrow> if length c = 0 \<and> required iv then Inr False
                  else inputs_present rest abi)"

text \<open>
  \<^verbatim>\<open>sanitised_inputs\<close>: an empty candidate list becomes \<^verbatim>\<open>[list().append(None)]\<close>,
  which is \<^verbatim>\<open>[None]\<close> since \<^verbatim>\<open>append\<close> returns \<^verbatim>\<open>None\<close>; any other list is kept,
  its paths being the values \<open>Some p\<close>.
\<close>

definition sanitised :: "string list \<Rightarrow> string option list" where
  "sanitised c = (if length c = 0 then [None] else map Some c)"

fun sanitise_inputs ::
  "(string, input_spec) dict \<Rightarrow> (string, string list) dict \<Rightarrow>
   (string, string option list) dict \<Rightarrow> error + (string, string option list) dict" where
  "sanitise_inputs [] abi acc = Inr acc"
| "sanitise_inputs ((i, iv) # rest) abi acc =
     (case map_of abi i of
        None \<Rightarrow> Inl KeyError
      | Some c \<Rightarrow> sanitise_inputs rest abi (dict_set acc i (sanitised c)))"

text \<open>
  The column of a \<^verbatim>\<open>from\<close> input: for each candidate of the governing source, the
  field \<open>v2\<close> of the recorded inputs of that artefact's entity; an entity without
  recorded inputs contributes nothing.
\<close>

fun from_vector ::
  "(string, parser_artefact) dict \<Rightarrow> string \<Rightarrow> string option list \<Rightarrow>
   error + string option list" where
  "from_vector arts v2 [] = Inr []"
| "from_vector arts v2 (fa # fas) =
     (case fa of
        None \<Rightarrow> Inl KeyError
      | Some p \<Rightarrow>
         (case map_of arts p of
            None \<Rightarrow> Inl KeyError
          | Some a \<Rightarrow>
             (case get_inputs (entity a) of
                None \<Rightarrow> from_vector arts v2 fas
              | Some from_inputs \<Rightarrow>
                 (case map_of from_inputs v2 of
                    None \<Rightarrow> Inl KeyError
                  | Some x \<Rightarrow>
                     (case from_vector arts v2 fas of
                        Inl e \<Rightarrow> Inl e
                      | Inr r \<Rightarrow> Inr (Some x # r))))))"

text \<open>
  The loop over \<^verbatim>\<open>iteration_map.items()\<close> for the source \<open>i\<close>: \<open>mapped\<close> is
  \<^verbatim>\<open>mapped_inputs\<close>, \<open>cols\<close> the columns appended to \<^verbatim>\<open>combined_input_vector\<close>
  after the source's own.
\<close>

fun map_dependents ::
  "(string, input_spec) dict \<Rightarrow> (string, string option list) dict \<Rightarrow>
   (string, parser_artefact) dict \<Rightarrow> string \<Rightarrow> (string, string) dict \<Rightarrow>
   string list \<times> string option list list \<Rightarrow>
   error + (string list \<times> string option list list)" where
  "map_dependents inputs san arts i [] acc = Inr acc"
| "map_dependents inputs san arts i ((k, v) # rest) (mapped, cols) =
     (case map_of inputs k of
        None \<Rightarrow> Inl KeyError
      | Some kv \<Rightarrow>
         (case select kv of
            [] \<Rightarrow> Inl IndexError
          | fn # _ \<Rightarrow>
             if fn = ''foreach'' then
               (if v = i then
                  (case map_of san k of
                     None \<Rightarrow> Inl KeyError
                   | Some c \<Rightarrow>
                       map_dependents inputs san arts i rest (mapped @ [k], cols @ [c]))
                else map_dependents inputs san arts i rest (mapped, cols))
             else
               (case str_split CHR ''/'' v of
                  [v1, v2] \<Rightarrow>
                    if v1 = i then
                      (case map_of san v1 of
                         None \<Rightarrow> Inl KeyError
                       | Some from_artefacts \<Rightarrow>
                          (case from_vector arts v2 from_artefacts of
                             Inl e \<Rightarrow> Inl e
                           | Inr c \<Rightarrow>
                               map_dependents inputs san arts i rest
                                 (mapped @ [k], cols @ [c])))
                    else map_dependents inputs san arts i rest (mapped, cols)
                | _ \<Rightarrow> Inl ValueError)))"

text \<open>
  The transposition: \<^verbatim>\<open>min_entry_count\<close> rows, row \<open>r\<close> holding entry \<open>r\<close> of every
  column.
\<close>

definition min_entry_count :: "'a list list \<Rightarrow> nat" where
  "min_entry_count combined = min_list (map length combined)"

definition merged_input_vector :: "string option list list \<Rightarrow> pyval list list" where
  "merged_input_vector combined =
     map (\<lambda>row. map (\<lambda>col. Item (col ! row)) combined) [0..<min_entry_count combined]"

text \<open>
  The branch for \<^verbatim>\<open>select_fn in ['foreach', 'from']\<close>. For \<^verbatim>\<open>from\<close> the source's
  own vector is \<^verbatim>\<open>None\<close>, and taking its length raises.
\<close>

definition combined_dimension ::
  "(string, input_spec) dict \<Rightarrow> (string, string option list) dict \<Rightarrow>
   (string, parser_artefact) dict \<Rightarrow> (string, string) dict \<Rightarrow> string \<Rightarrow>
   string option list option \<Rightarrow> error + (string list \<times> pyval list list option)" where
  "combined_dimension inputs san arts iteration_map i cur_input_vector =
     (case map_dependents inputs san arts i iteration_map ([i], []) of
        Inl e \<Rightarrow> Inl e
      | Inr (mapped, cols) \<Rightarrow>
         (case cur_input_vector of
            None \<Rightarrow> Inl TypeError
          | Some c \<Rightarrow> Inr (mapped, Some (merged_input_vector (c # cols)))))"

text \<open>
  One pass of the loop over the iteration sources: the names of the dimension and its
  row fragments. A mode without a branch leaves the dimension \<^verbatim>\<open>None\<close>. For
  \<^verbatim>\<open>some\<close>, \<^verbatim>\<open>min\<close> compares a length with the count argument, which is a string:
  Python 3 raises \<^verbatim>\<open>TypeError\<close> on that comparison.
\<close>

definition source_dimension ::
  "(string, input_spec) dict \<Rightarrow> (string, string option list) dict \<Rightarrow>
   (string, parser_artefact) dict \<Rightarrow> (string, string) dict \<Rightarrow> string \<Rightarrow>
   error + (string list \<times> pyval list list option)" where
  "source_dimension inputs san arts iteration_map i =
     (case map_of inputs i of
        None \<Rightarrow> Inl KeyError
      | Some iv \<Rightarrow>
         (case select iv of
            [] \<Rightarrow> Inl IndexError
          | select_fn # args \<Rightarrow>
             if select_fn = ''foreach'' then
               (case map_of san i of
                  None \<Rightarrow> Inl KeyError
                | Some s \<Rightarrow> combined_dimension inputs san arts iteration_map i (Some s))
             else if select_fn = ''all'' then
               (case map_of san i of
                  None \<Rightarrow> Inl KeyError
                | Some s \<Rightarrow> Inr ([i], Some [[Items s]]))
             else if select_fn = ''some'' then
               (case map_of san i of
                  None \<Rightarrow> Inl KeyError
                | Some s \<Rightarrow> (case args of [] \<Rightarrow> Inl IndexError | _ \<Rightarrow> Inl TypeError))
             else if select_fn = ''one'' then
               (case map_of san i of
                  None \<Rightarrow> Inl KeyError
                | Some s \<Rightarrow> Inr ([i], Some [map Item (take 1 s)]))
             else if select_fn = ''from'' then
               combined_dimension inputs san arts iteration_map i None
             else Inr ([i], None)))"

fun all_dimensions ::
  "(string, input_spec) dict \<Rightarrow> (string, string option list) dict \<Rightarrow>
   (string, parser_artefact) dict \<Rightarrow> (string, string) dict \<Rightarrow> string list \<Rightarrow>
   error + (string list list \<times> pyval list list option list)" where
  "all_dimensions inputs san arts iteration_map [] = Inr ([], [])"
| "all_dimensions inputs san arts iteration_map (i # rest) =
     (case source_dimension inputs san arts iteration_map i of
        Inl e \<Rightarrow> Inl e
      | Inr (mapped, dim) \<Rightarrow>
         (case all_dimensions inputs san arts iteration_map rest of
            Inl e \<Rightarrow> Inl e
          | Inr (all_inputs, dims) \<Rightarrow> Inr (mapped # all_inputs, dim # dims)))"

text \<open>
  The final loop: \<^verbatim>\<open>row[matrix_headers[i]] = r[i]\<close> for every header index.
\<close>

fun build_row :: "string list \<Rightarrow> pyval list \<Rightarrow> parameter_row \<Rightarrow> error + parameter_row" where
  "build_row [] r row = Inr row"
| "build_row (h # hs) [] row = Inl IndexError"
| "build_row (h # hs) (x # xs) row = build_row hs xs (dict_set row h x)"

fun build_rows :: "string list \<Rightarrow> pyval list list \<Rightarrow> error + parameter_row list" where
  "build_rows headers [] = Inr []"
| "build_rows headers (r # rs) =
     (case build_row headers r [] of
        Inl e \<Rightarrow> Inl e
      | Inr row \<Rightarrow>
         (case build_rows headers rs of
            Inl e \<Rightarrow> Inl e
          | Inr rows \<Rightarrow> Inr (row # rows)))"

text \<open>
  \<^verbatim>\<open>generate_parameter_matrix\<close>. \<open>iteration_sources\<close> is a Python \<^verbatim>\<open>set\<close>; the list
  given here holds its names in the order in which \<^verbatim>\<open>for i in iteration_sources\<close>
  yields them. A dimension that is \<^verbatim>\<open>None\<close> makes \<^verbatim>\<open>itertools.product\<close> raise.
\<close>

definition generate_parameter_matrix ::
  "(string, input_spec) dict \<Rightarrow> string list \<Rightarrow> (string, string) dict \<Rightarrow>
   (string, parser_artefact) dict \<Rightarrow> (string, string list) dict \<Rightarrow>
   error + parameter_row list" where
  "generate_parameter_matrix inputs iteration_sources iteration_map artefacts
       artefacts_by_input =
     (case inputs_present inputs artefacts_by_input of
        Inl e \<Rightarrow> Inl e
      | Inr False \<Rightarrow> Inr []
      | Inr True \<Rightarrow>
         (case sanitise_inputs inputs artefacts_by_input [] of
            Inl e \<Rightarrow> Inl e
          | Inr sanitised_inputs \<Rightarrow>
             (case all_dimensions inputs sanitised_inputs artefacts iteration_map
                     iteration_sources of
                Inl e \<Rightarrow> Inl e
              | Inr (all_inputs, input_dimension_map) \<Rightarrow>
                 (case those input_dimension_map of
                    None \<Rightarrow> Inl TypeError
                  | Some dims \<Rightarrow>
                     build_rows (concat all_inputs)
                       (map concat (itertools_product dims))))))"

section \<open>The selection grammar and the input registry\<close>

text \<open>
  \<^verbatim>\<open>str.strip()\<close> removes leading and trailing whitespace; \<open>isspace\<close> lists the
  whitespace code points below 256. \<open>find_char\<close> is \<^verbatim>\<open>str.find\<close> for one character,
  with \<open>None\<close> for \<^verbatim>\<open>-1\<close>; \<open>slice a b s\<close> is \<^verbatim>\<open>s[a:b]\<close> for indices within the
  string.
\<close>

definition isspace :: "char \<Rightarrow> bool" where
  "isspace c \<longleftrightarrow> c \<in> set [CHR 0x09, CHR 0x0A, CHR 0x0B, CHR 0x0C, CHR 0x0D, CHR 0x1C,
     CHR 0x1D, CHR 0x1E, CHR 0x1F, CHR 0x20, CHR 0x85, CHR 0xA0]"

definition strip :: "string \<Rightarrow> string" where
  "strip s = rev (dropWhile isspace (rev (dropWhile isspace s)))"

fun find_char :: "char \<Rightarrow> string \<Rightarrow> nat option" where
  "find_char c [] = None"
| "find_char c (x # xs) = (if x = c then Some 0 else map_option Suc (find_char c xs))"

definition slice :: "nat \<Rightarrow> nat \<Rightarrow> 'a list \<Rightarrow> 'a list" where
  "slice a b s = take (b - a) (drop a s)"

text \<open>
  \<^verbatim>\<open>int(s)\<close> in base ten: surrounding whitespace, an optional sign, then digits, with
  single underscores allowed between digits.
\<close>

definition isdigit :: "char \<Rightarrow> bool" where
  "isdigit c \<longleftrightarrow> c \<in> set ''0123456789''"

definition digit_value :: "char \<Rightarrow> nat" where
  "digit_value c = of_char c - 48"

fun parse_digits :: "nat \<Rightarrow> string \<Rightarrow> nat option" where
  "parse_digits acc [] = Some acc"
| "parse_digits acc [c] =
     (if isdigit c then Some (acc * 10 + digit_value c) else None)"
| "parse_digits acc (c # d # ds) =
     (if isdigit c then parse_digits (acc * 10 + digit_value c) (d # ds)
      else if c = CHR ''_'' \<and> isdigit d then parse_digits (acc * 10 + digit_value d) ds
      else None)"

definition parse_nat :: "string \<Rightarrow> nat option" where
  "parse_nat s =
     (case s of
        [] \<Rightarrow> None
      | c # cs \<Rightarrow> if isdigit c then parse_digits (digit_value c) cs else None)"

definition python_int :: "string \<Rightarrow> error + int" where
  "python_int s =
     (case strip s of
        [] \<Rightarrow> Inl ValueError
      | c # cs \<Rightarrow>
         if c = CHR ''-'' then
           (case parse_nat cs of None \<Rightarrow> Inl ValueError | Some n \<Rightarrow> Inr (- int n))
         else if c = CHR ''+'' then
           (case parse_nat cs of None \<Rightarrow> Inl ValueError | Some n \<Rightarrow> Inr (int n))
         else
           (case parse_nat (c # cs) of None \<Rightarrow> Inl ValueError | Some n \<Rightarrow> Inr (int n)))"

text \<open>\<^verbatim>\<open>sys.maxsize\<close> of a 64-bit interpreter.\<close>

definition sys_maxsize :: int where
  "sys_maxsize = 2 ^ 63 - 1"

text \<open>The keys of \<^verbatim>\<open>select_namespace\<close>, the recognised artefact-select modes.\<close>

definition select_namespace :: "string list" where
  "select_namespace = [''foreach'', ''one'', ''some'', ''all'', ''from'']"

text \<open>
  \<^verbatim>\<open>_get_args\<close>: a statement without parentheses is its own single token; with both
  an opening and a closing parenthesis, the text before the first \<^verbatim>\<open>(\<close> followed by the
  stripped comma-separated pieces between it and the first \<^verbatim>\<open>)\<close>; with only one of the
  two, the statement is malformed.
\<close>

definition get_args :: "string \<Rightarrow> error + string list" where
  "get_args statement =
     (case (find_char CHR ''('' statement, find_char CHR '')'' statement) of
        (None, None) \<Rightarrow> Inr [statement]
      | (Some leftindex, Some rightindex) \<Rightarrow>
          Inr (take leftindex statement #
               map strip (str_split CHR '','' (slice (leftindex + 1) rightindex statement)))
      | _ \<Rightarrow> Inl ValueError)"

definition parse_select :: "string option \<Rightarrow> error + string list" where
  "parse_select statement =
     get_args (strip (case statement of None \<Rightarrow> ''foreach'' | Some s \<Rightarrow> s))"

text \<open>
  \<^verbatim>\<open>_parse_session_select\<close>: \<^verbatim>\<open>delta\<close> is assigned in three branches only, so any
  other mode token reaches the constructor call with \<^verbatim>\<open>delta\<close> unbound.
\<close>

definition parse_session_select :: "string option \<Rightarrow> error + select_session_parameters" where
  "parse_session_select statement =
     (case get_args (strip (case statement of None \<Rightarrow> ''current'' | Some s \<Rightarrow> s)) of
        Inl e \<Rightarrow> Inl e
      | Inr args \<Rightarrow>
         (case args of
            [] \<Rightarrow> Inl IndexError
          | a0 # rest \<Rightarrow>
             if a0 = ''current'' then Inr \<lparr>mode = a0, delta = 0\<rparr>
             else if a0 \<in> set [''prior'', ''prior-with''] then
               (case rest of
                  [] \<Rightarrow> Inl IndexError
                | a1 # _ \<Rightarrow>
                   (case python_int a1 of
                      Inl e \<Rightarrow> Inl e
                    | Inr d \<Rightarrow> Inr \<lparr>mode = a0, delta = d\<rparr>))
             else if a0 \<in> set [''first'', ''first-with''] then
               Inr \<lparr>mode = a0, delta = sys_maxsize\<rparr>
             else Inl UnboundLocalError))"

text \<open>
  \<^verbatim>\<open>_register_iteration_references\<close>, on the pair of registries: the set
  \<^verbatim>\<open>iteration_sources\<close> and the dictionary \<^verbatim>\<open>iteration_map\<close>. The chain of branches
  has no final \<^verbatim>\<open>else\<close>.
\<close>

definition register_iteration_references ::
  "string \<Rightarrow> string list \<Rightarrow> string set \<times> (string, string) dict \<Rightarrow>
   error + (string set \<times> (string, string) dict)" where
  "register_iteration_references name' iteration_args regs =
     (case regs of (iteration_sources, iteration_map) \<Rightarrow>
       (case iteration_args of
          [] \<Rightarrow> Inl IndexError
        | a0 # rest \<Rightarrow>
           if a0 = ''foreach'' then
             (if length iteration_args = 1 then Inr (insert name' iteration_sources, iteration_map)
              else
                (case rest of
                   [] \<Rightarrow> Inl IndexError
                 | a1 # _ \<Rightarrow> Inr (iteration_sources, dict_set iteration_map name' a1)))
           else if a0 = ''one'' then Inr (insert name' iteration_sources, iteration_map)
           else if a0 = ''all'' then Inr (insert name' iteration_sources, iteration_map)
           else if a0 = ''from'' then
             (case rest of
                [] \<Rightarrow> Inl IndexError
              | a1 # _ \<Rightarrow> Inr (iteration_sources, dict_set iteration_map name' a1))
           else Inr (iteration_sources, iteration_map)))"

fun register_input_types ::
  "string list \<Rightarrow> (string, string set) dict \<Rightarrow> string \<Rightarrow> (string, string set) dict" where
  "register_input_types [] inputs_by_type name' = inputs_by_type"
| "register_input_types (t # ts) inputs_by_type name' =
     register_input_types ts
       (dict_set inputs_by_type t
          (insert name' (case map_of inputs_by_type t of None \<Rightarrow> {} | Some s \<Rightarrow> s)))
       name'"

text \<open>
  The specification document as \<^verbatim>\<open>parse_inputs\<close> reads it: the entries under
  \<^verbatim>\<open>scans\<close> and \<^verbatim>\<open>assessors\<close> (an absent list is empty), each with its name, its
  optional \<^verbatim>\<open>select\<close> and \<^verbatim>\<open>select-session\<close> strings, its \<^verbatim>\<open>types\<close> (for an
  assessor, \<^verbatim>\<open>proctypes\<close>) string, its resources and \<^verbatim>\<open>needs_qc\<close>.
\<close>

record yaml_input =
  y_name :: string
  y_select :: "string option"
  y_select_session :: "string option"
  y_types :: string
  y_resources :: "resource_spec list"
  y_needs_qc :: bool

record xnat_section =
  y_scans :: "yaml_input list"
  y_assessors :: "yaml_input list"

text \<open>
  The local variables of \<^verbatim>\<open>parse_inputs\<close> that its two loops update. \<open>ps_r\<close> is the
  \<^verbatim>\<open>required\<close> entry of the loop variable \<^verbatim>\<open>r\<close>, which stays bound after the
  resource loop of an earlier entry; \<open>None\<close> as long as no resource has been visited.
\<close>

record parse_state =
  ps_inputs :: "(string, input_spec) dict"
  ps_inputs_by_type :: "(string, string set) dict"
  ps_iteration_sources :: "string set"
  ps_iteration_map :: "(string, string) dict"
  ps_prior_session_count :: int
  ps_r :: "bool option"

definition default_required :: "resource_spec \<Rightarrow> resource_spec" where
  "default_required r =
     r\<lparr>res_required := Some (case res_required r of None \<Rightarrow> True | Some b \<Rightarrow> b)\<rparr>"

text \<open>
  One pass of a loop of \<^verbatim>\<open>parse_inputs\<close>, for a scan when \<open>kind\<close> is \<^verbatim>\<open>scan\<close> and for
  an assessor otherwise. The scan loop accumulates \<^verbatim>\<open>artefact_required\<close> inside its
  resource loop; the assessor loop reads \<^verbatim>\<open>r['required']\<close> once, after its resource
  loop.
\<close>

definition parse_entry :: "string \<Rightarrow> yaml_input \<Rightarrow> parse_state \<Rightarrow> error + parse_state" where
  "parse_entry kind s st =
     (case parse_select (y_select s) of
        Inl e \<Rightarrow> Inl e
      | Inr parsed_select \<Rightarrow>
         (case parse_session_select (y_select_session s) of
            Inl e \<Rightarrow> Inl e
          | Inr parsed_session_select \<Rightarrow>
             (case register_iteration_references (y_name s) parsed_select
                     (ps_iteration_sources st, ps_iteration_map st) of
                Inl e \<Rightarrow> Inl e
              | Inr (iteration_sources, iteration_map) \<Rightarrow>
                 (let types' = map strip (str_split CHR '','' (y_types s));
                      inputs_by_type =
                        register_input_types types' (ps_inputs_by_type st) (y_name s);
                      resources' = map default_required (y_resources s);
                      r = (case resources' of
                             [] \<Rightarrow> ps_r st
                           | _ \<Rightarrow> res_required (last resources'))
                  in
                   (case (if kind = ''scan''
                          then Inr (list_ex (\<lambda>r. res_required r = Some True) resources')
                          else (case r of None \<Rightarrow> Inl UnboundLocalError | Some b \<Rightarrow> Inr b)) of
                      Inl e \<Rightarrow> Inl e
                    | Inr artefact_required \<Rightarrow>
                        Inr \<lparr>ps_inputs =
                               dict_set (ps_inputs st) (y_name s)
                                 \<lparr>types = types', select = parsed_select,
                                  select_session = parsed_session_select,
                                  artefact_type = kind, needs_qc = y_needs_qc s,
                                  resources = resources', required = artefact_required\<rparr>,
                             ps_inputs_by_type = inputs_by_type,
                             ps_iteration_sources = iteration_sources,
                             ps_iteration_map = iteration_map,
                             ps_prior_session_count =
                               max (ps_prior_session_count st) (delta parsed_session_select),
                             ps_r = r\<rparr>)))))"

fun parse_entries :: "string \<Rightarrow> yaml_input list \<Rightarrow> parse_state \<Rightarrow> error + parse_state" where
  "parse_entries kind [] st = Inr st"
| "parse_entries kind (s # rest) st =
     (case parse_entry kind s st of
        Inl e \<Rightarrow> Inl e
      | Inr st' \<Rightarrow> parse_entries kind rest st')"

text \<open>
  \<^verbatim>\<open>parse_inputs\<close>, on the \<^verbatim>\<open>xnat\<close> section of the document (\<open>None\<close> when the
  keyword has no contents): the scans first, then the assessors.
\<close>

definition parse_inputs ::
  "xnat_section option \<Rightarrow>
   error + ((string, input_spec) dict \<times> (string, string set) dict \<times> string set \<times>
            (string, string) dict \<times> int)" where
  "parse_inputs xnat =
     (case xnat of
        None \<Rightarrow> Inl ValueError
      | Some x \<Rightarrow>
         (case parse_entries ''scan'' (y_scans x)
                 \<lparr>ps_inputs = [], ps_inputs_by_type = [], ps_iteration_sources = {},
                  ps_iteration_map = [], ps_prior_session_count = 0, ps_r = None\<rparr> of
            Inl e \<Rightarrow> Inl e
          | Inr st \<Rightarrow>
             (case parse_entries ''assessor'' (y_assessors x) st of
                Inl e \<Rightarrow> Inl e
              | Inr st' \<Rightarrow>
                  Inr (ps_inputs st', ps_inputs_by_type st', ps_iteration_sources st',
                       ps_iteration_map st', ps_prior_session_count st'))))"

section \<open>Reconciliation with existing assessors\<close>

text \<open>
  The recorded inputs of an assessor after decoding, as a row: a decoded string \<open>v\<close> is
  the row value \<open>Item (Some v)\<close>.
\<close>

definition decode_inputs :: "(string, string) dict \<Rightarrow> parameter_row" where
  "decode_inputs items = fold (\<lambda>(key, val) d. dict_set d key (Item (Some val))) items []"

text \<open>
  The inner loop of \<^verbatim>\<open>compare_to_existing\<close>: the assessor is appended to the list of
  every row that equals its recorded inputs.
\<close>

definition add_matches ::
  "parameter_row \<Rightarrow> xnat_object \<Rightarrow> parameter_row list \<Rightarrow> xnat_object list list \<Rightarrow>
   xnat_object list list" where
  "add_matches inputs casr parameter_matrix assessors' =
     map (\<lambda>(p, as). if dict_eq inputs p then as @ [casr] else as)
       (zip parameter_matrix assessors')"

text \<open>
  The outer loop; \<open>None\<close> is the early \<^verbatim>\<open>return list()\<close> at an assessor whose
  \<^verbatim>\<open>get_inputs()\<close> is \<^verbatim>\<open>None\<close>.
\<close>

fun compare_loop ::
  "xnat_object list \<Rightarrow> parameter_row list \<Rightarrow> xnat_object list list \<Rightarrow>
   xnat_object list list option" where
  "compare_loop [] parameter_matrix assessors' = Some assessors'"
| "compare_loop (casr # rest) parameter_matrix assessors' =
     (case get_inputs casr of
        None \<Rightarrow> None
      | Some inputs \<Rightarrow>
          compare_loop rest parameter_matrix
            (add_matches (decode_inputs inputs) casr parameter_matrix assessors'))"

definition compare_to_existing ::
  "'t session list \<Rightarrow> string \<Rightarrow> parameter_row list \<Rightarrow>
   error + (parameter_row \<times> xnat_object list) list" where
  "compare_to_existing csesses proc_type parameter_matrix =
     (case csesses of
        [] \<Rightarrow> Inl IndexError
      | csess # _ \<Rightarrow>
         (case compare_loop (filter (\<lambda>a. otype a = proc_type) (assessors csess))
                 parameter_matrix (replicate (length parameter_matrix) []) of
            None \<Rightarrow> Inr []
          | Some assessors' \<Rightarrow> Inr (zip parameter_matrix assessors')))"

section \<open>Parsing a session\<close>

text \<open>
  The ordering loop of \<^verbatim>\<open>parse_session\<close>: \<open>False\<close> where it raises, at the first
  session whose timestamp is less than that of the session after it.
\<close>

fun sessions_ordered :: "('t::linorder) session list \<Rightarrow> bool" where
  "sessions_ordered (a # b # rest) =
     (if creation_timestamp a < creation_timestamp b then False
      else sessions_ordered (b # rest))"
| "sessions_ordered sessions = True"

text \<open>
  The fields of the parser that \<^verbatim>\<open>parse_session\<close> assigns, \<^verbatim>\<open>self.csess\<close> to
  \<^verbatim>\<open>self.assessor_parameter_map\<close>; \<open>None\<close> is Python's \<^verbatim>\<open>None\<close>.
\<close>

record 't parser_fields =
  self_csess :: "'t session option"
  self_sessions :: "'t session list option"
  self_artefacts :: "(string, parser_artefact) dict option"
  self_artefacts_by_input :: "(string, string list) dict option"
  self_parameter_matrix :: "parameter_row list option"
  self_assessor_parameter_map :: "(parameter_row \<times> xnat_object list) list option"

text \<open>
  \<^verbatim>\<open>parse_session\<close>. It first resets the fields, then runs the ordering loop, and
  only then the stages of lines 159 to 188 (choice of the relevant sessions,
  \<^verbatim>\<open>parse_artefacts\<close>, \<^verbatim>\<open>map_artefacts_to_inputs\<close>, \<^verbatim>\<open>generate_parameter_matrix\<close>,
  \<^verbatim>\<open>filter_matrix\<close>, \<^verbatim>\<open>compare_to_existing\<close>), which are the argument \<open>stages\<close>:
  applied to the session and the session list, they give the catalogue, the candidates
  by input, the matrix and the reconciliation, or raise. The result is the exception
  raised, if any, and the fields as the call leaves them.
\<close>

definition parse_session ::
  "('t session \<Rightarrow> 't session list \<Rightarrow>
      error + ((string, parser_artefact) dict \<times> (string, string list) dict \<times>
               parameter_row list \<times> (parameter_row \<times> xnat_object list) list)) \<Rightarrow>
   ('t::linorder) session \<Rightarrow> 't session list \<Rightarrow> error option \<times> 't parser_fields" where
  "parse_session stages csess' sessions =
     (let reset = \<lparr>self_csess = None, self_sessions = Some sessions, self_artefacts = None,
                   self_artefacts_by_input = None, self_parameter_matrix = None,
                   self_assessor_parameter_map = None\<rparr>
      in if \<not> sessions_ordered sessions then (Some ValueError, reset)
         else
           (case stages csess' sessions of
              Inl e \<Rightarrow> (Some e, reset)
            | Inr (arts, abi, matrix, amap) \<Rightarrow>
                (None, reset\<lparr>self_csess := Some csess', self_artefacts := Some arts,
                              self_artefacts_by_input := Some abi,
                              self_parameter_matrix := Some matrix,
                              self_assessor_parameter_map := Some amap\<rparr>)))"

section \<open>Helpers for statements and concrete runs\<close>

text \<open>
  Whether the recorded inputs of an assessor equal a row, as the comparison
  \<^verbatim>\<open>inputs == p\<close> of \<^verbatim>\<open>compare_to_existing\<close> decides it; an assessor without
  recorded inputs equals no row.
\<close>

definition recorded_equals :: "xnat_object \<Rightarrow> parameter_row \<Rightarrow> bool" where
  "recorded_equals a p =
     (case get_inputs a of None \<Rightarrow> False | Some d \<Rightarrow> dict_eq (decode_inputs d) p)"

text \<open>
  What the registration of one declared input has done to the pair of registries
  \<open>before\<close>, giving \<open>after\<close>.
\<close>

definition classified ::
  "string set \<times> (string, string) dict \<Rightarrow> string set \<times> (string, string) dict \<Rightarrow>
   yaml_input \<Rightarrow> bool" where
  "classified before after s \<longleftrightarrow>
     (\<exists>token args. parse_select (y_select s) = Inr (token # args) \<and>
        (token = ''foreach'' \<and> args = [] \<or> token = ''one'' \<or> token = ''all'' \<longrightarrow>
           y_name s \<in> fst after \<and> map_of (snd after) (y_name s) = map_of (snd before) (y_name s)) \<and>
        (token = ''foreach'' \<and> args \<noteq> [] \<or> token = ''from'' \<longrightarrow>
           (y_name s \<in> fst after \<longleftrightarrow> y_name s \<in> fst before) \<and>
           map_of (snd after) (y_name s) = Some (hd args)))"

text \<open>
  Concrete values: an input with the given parsed \<^verbatim>\<open>select\<close> and \<^verbatim>\<open>required\<close>
  entries (the other entries are not read by the matrix generator), a declared input
  of the document, an assessor with its type and recorded inputs, an artefact of the
  catalogue, and a session.
\<close>

definition mk_input :: "string list \<Rightarrow> bool \<Rightarrow> input_spec" where
  "mk_input sel req =
     \<lparr>types = [], select = sel, select_session = \<lparr>mode = ''current'', delta = 0\<rparr>,
      artefact_type = ''scan'', needs_qc = False, resources = [], required = req\<rparr>"

definition mk_entry :: "string \<Rightarrow> string option \<Rightarrow> string \<Rightarrow> yaml_input" where
  "mk_entry n sel tys =
     \<lparr>y_name = n, y_select = sel, y_select_session = None, y_types = tys,
      y_resources = [], y_needs_qc = False\<rparr>"

definition mk_assessor :: "string \<Rightarrow> string \<Rightarrow> (string, string) dict option \<Rightarrow> xnat_object" where
  "mk_assessor p t d = \<lparr>full_path = p, otype = t, label = p, get_inputs = d\<rparr>"

definition mk_artefact :: "string \<Rightarrow> (string, string) dict option \<Rightarrow> parser_artefact" where
  "mk_artefact p d =
     \<lparr>name = p, path = p, art_resources = [], entity = mk_assessor p ''proc'' d\<rparr>"

definition mk_session :: "'t \<Rightarrow> xnat_object list \<Rightarrow> 't session" where
  "mk_session ts as = \<lparr>creation_timestamp = ts, scans = [], assessors = as\<rparr>"

section \<open>Dictionaries\<close>

lemma map_of_dict_set: "map_of (dict_set d k v) = (map_of d)(k \<mapsto> v)"
  by (induction d) (auto simp: fun_eq_iff)

lemma keys_dict_set:
  "map fst (dict_set d k v) = (if k \<in> set (map fst d) then map fst d else map fst d @ [k])"
proof (induction d)
  case Nil
  then show ?case by simp
next
  case (Cons x d)
  obtain k' v' where x: "x = (k', v')" by (cases x)
  show ?case using Cons.IH x by (cases "k' = k") force+
qed

lemma distinct_dict_set: "distinct (map fst d) \<Longrightarrow> distinct (map fst (dict_set d k v))"
  by (simp add: keys_dict_set)

text \<open>
  On dictionaries (no key twice), \<open>dict_eq\<close> is equality of the two mappings: the same
  keys, bound to the same values.
\<close>

lemma dict_eq_iff_map_of:
  assumes "distinct (map fst a)" and "distinct (map fst b)"
  shows "dict_eq a b \<longleftrightarrow> map_of a = map_of b"
proof
  assume "dict_eq a b"
  then have len: "length a = length b" and all: "\<forall>(k, v) \<in> set a. map_of b k = Some v"
    by (auto simp: dict_eq_def list_all_iff)
  from all have sub: "set a \<subseteq> set b" by (auto dest: map_of_SomeD)
  from assms have da: "distinct a" and db: "distinct b" by (auto simp: distinct_map)
  have "card (set a) = card (set b)" using len da db by (simp add: distinct_card)
  with sub have "set a = set b" by (simp add: card_subset_eq)
  then show "map_of a = map_of b" using assms by (simp add: map_of_inject_set)
next
  assume eq: "map_of a = map_of b"
  then have s: "set a = set b" using assms by (simp add: map_of_inject_set)
  from assms have da: "distinct a" and db: "distinct b" by (auto simp: distinct_map)
  have "length a = length b" using s da db by (metis distinct_card)
  moreover have "\<forall>(k, v) \<in> set a. map_of b k = Some v"
    using s assms(2) by auto
  ultimately show "dict_eq a b" by (simp add: dict_eq_def list_all_iff)
qed

section \<open>The gate on required inputs\<close>

lemma inputs_present_False:
  "(i, iv) \<in> set inputs \<Longrightarrow> required iv \<Longrightarrow> map_of abi i = Some [] \<Longrightarrow>
   \<forall>(j, jv) \<in> set inputs. map_of abi j \<noteq> None \<Longrightarrow>
   inputs_present inputs abi = Inr False"
proof (induction inputs)
  case Nil
  then show ?case by simp
next
  case (Cons p inputs)
  obtain j jv where p: "p = (j, jv)" by (cases p)
  from Cons.prems(4) p obtain c where c: "map_of abi j = Some c" by auto
  show ?case
  proof (cases "length c = 0 \<and> required jv")
    case True
    then show ?thesis using p c by simp
  next
    case False
    with Cons.prems(1,2,3) p c have "(i, iv) \<in> set inputs" by auto
    moreover from Cons.prems(4) have "\<forall>(j, jv) \<in> set inputs. map_of abi j \<noteq> None" by simp
    ultimately have "inputs_present inputs abi = Inr False"
      using Cons.IH Cons.prems(2,3) by blast
    then show ?thesis using p c False by simp
  qed
qed

text \<open>
  Claim C1. Let the candidate mapping have a list for every input of the specification
  (as the mapper builds it). If some input is marked required and its candidate list is
  empty, \<^verbatim>\<open>generate_parameter_matrix\<close> returns the empty matrix, as a normal return
  and not an exception, whatever the iteration sources, the iteration map and the
  artefact catalogue are.
\<close>

theorem gate_required_input_without_candidates:
  assumes "\<forall>(j, jv) \<in> set inputs. map_of artefacts_by_input j \<noteq> None"
    and "(i, iv) \<in> set inputs" and "required iv"
    and "map_of artefacts_by_input i = Some []"
  shows "generate_parameter_matrix inputs iteration_sources iteration_map artefacts
           artefacts_by_input = Inr []"
  using inputs_present_False [OF assms(2,3,4,1)]
  by (simp add: generate_parameter_matrix_def)

theorem gate_required_input_without_candidates_witness:
  "required (mk_input [''one''] True)
   \<and> map_of [(''A'', [''a1'']), (''B'', [])] ''B'' = Some []
   \<and> generate_parameter_matrix
        [(''A'', mk_input [''foreach''] False), (''B'', mk_input [''one''] True)]
        [''A'', ''B''] [] [] [(''A'', [''a1'']), (''B'', [])] = Inr []"
proof -
  have h1: "\<forall>(j, jv) \<in> set [(''A'', mk_input [''foreach''] False), (''B'', mk_input [''one''] True)].
      map_of [(''A'', [''a1'']), (''B'', [])] j \<noteq> None" by simp
  have h2: "(''B'', mk_input [''one''] True)
        \<in> set [(''A'', mk_input [''foreach''] False), (''B'', mk_input [''one''] True)]" by simp
  have h3: "required (mk_input [''one''] True)" by (simp add: mk_input_def)
  have h4: "map_of [(''A'', [''a1'']), (''B'', [])] ''B'' = Some []" by simp
  show ?thesis
    using gate_required_input_without_candidates [OF h1 h2 h3 h4, of "[''A'', ''B'']" "[]" "[]"]
      h3 h4 by blast
qed

section \<open>Reconciliation\<close>

lemma fold_decode_distinct:
  "distinct (map fst acc) \<Longrightarrow>
   distinct (map fst (fold (\<lambda>(key, val) d. dict_set d key (Item (Some val))) items acc))"
  by (induction items arbitrary: acc) (auto simp: distinct_dict_set split: prod.splits)

lemma distinct_decode_inputs: "distinct (map fst (decode_inputs d))"
  by (simp add: decode_inputs_def fold_decode_distinct)

lemma fold_decode_map_of:
  "distinct (map fst items) \<Longrightarrow>
   map_of (fold (\<lambda>(key, val) d. dict_set d key (Item (Some val))) items acc) k =
     (case map_of items k of None \<Rightarrow> map_of acc k | Some v \<Rightarrow> Some (Item (Some v)))"
proof (induction items arbitrary: acc)
  case Nil
  then show ?case by simp
next
  case (Cons x items)
  obtain key val where x: "x = (key, val)" by (cases x)
  from Cons.prems x have nk: "map_of items key = None"
    by (simp add: map_of_eq_None_iff)
  from Cons.prems have "distinct (map fst items)" by simp
  from Cons.IH [OF this] show ?case using x nk
    by (auto simp: map_of_dict_set split: option.splits)
qed

lemma map_of_decode_inputs:
  "distinct (map fst d) \<Longrightarrow>
   map_of (decode_inputs d) k = map_option (\<lambda>v. Item (Some v)) (map_of d k)"
  by (simp add: decode_inputs_def fold_decode_map_of split: option.splits)

lemma length_add_matches:
  "length assessors' = length matrix \<Longrightarrow> length (add_matches i c matrix assessors') = length matrix"
  by (simp add: add_matches_def)

lemma compare_loop_None:
  "\<exists>c \<in> set cs. get_inputs c = None \<Longrightarrow> compare_loop cs matrix as = None"
  by (induction cs arbitrary: as) (auto split: option.splits)

lemma compare_loop_Some:
  "\<forall>c \<in> set cs. get_inputs c \<noteq> None \<Longrightarrow> length as = length matrix \<Longrightarrow>
   compare_loop cs matrix as =
     Some (map (\<lambda>(p, as'). as' @ filter (\<lambda>a. recorded_equals a p) cs) (zip matrix as))"
proof (induction cs arbitrary: as)
  case Nil
  then show ?case by (simp add: map_idI split_def)
next
  case (Cons c cs)
  from Cons.prems obtain d where d: "get_inputs c = Some d" by auto
  let ?as = "add_matches (decode_inputs d) c matrix as"
  have len: "length ?as = length matrix" using Cons.prems by (simp add: length_add_matches)
  from Cons.prems have "\<forall>c \<in> set cs. get_inputs c \<noteq> None" by simp
  from Cons.IH [OF this len]
  have "compare_loop (c # cs) matrix as =
     Some (map (\<lambda>(p, as'). as' @ filter (\<lambda>a. recorded_equals a p) cs) (zip matrix ?as))"
    using d by simp
  moreover have "map (\<lambda>(p, as'). as' @ filter (\<lambda>a. recorded_equals a p) cs) (zip matrix ?as)
     = map (\<lambda>(p, as'). as' @ filter (\<lambda>a. recorded_equals a p) (c # cs)) (zip matrix as)"
    using Cons.prems(2) d
    by (induction matrix as rule: list_induct2')
       (auto simp: add_matches_def recorded_equals_def)
  ultimately show ?case by simp
qed

text \<open>
  Claim C8. If an assessor of the first session has the target type and its
  \<^verbatim>\<open>get_inputs()\<close> yields nothing, \<^verbatim>\<open>compare_to_existing\<close> returns the empty list
  for the whole call: no row is paired, whatever the other assessors have recorded.
\<close>

theorem reconciliation_aborts_without_recorded_inputs:
  assumes "a \<in> set (assessors csess)" and "otype a = proc_type" and "get_inputs a = None"
  shows "compare_to_existing (csess # rest) proc_type parameter_matrix = Inr []"
proof -
  have "\<exists>c \<in> set (filter (\<lambda>a. otype a = proc_type) (assessors csess)). get_inputs c = None"
    using assms by auto
  then show ?thesis
    by (simp add: compare_to_existing_def compare_loop_None)
qed

theorem reconciliation_aborts_without_recorded_inputs_witness:
  "compare_to_existing
     [mk_session (0::nat)
        [mk_assessor ''a1'' ''proc'' (Some [(''T1'', ''p1'')]), mk_assessor ''a2'' ''proc'' None]]
     ''proc'' [[(''T1'', Item (Some ''p1''))]] = Inr []"
proof -
  have h1: "mk_assessor ''a2'' ''proc'' None
      \<in> set (assessors (mk_session (0::nat)
        [mk_assessor ''a1'' ''proc'' (Some [(''T1'', ''p1'')]), mk_assessor ''a2'' ''proc'' None]))"
    by (simp add: mk_session_def)
  have h2: "otype (mk_assessor ''a2'' ''proc'' None) = ''proc''" by (simp add: mk_assessor_def)
  have h3: "get_inputs (mk_assessor ''a2'' ''proc'' None) = None" by (simp add: mk_assessor_def)
  show ?thesis
    using reconciliation_aborts_without_recorded_inputs [OF h1 h2 h3, of "[]"] by simp
qed

text \<open>
  Claim C7, as stated, fails: with one candidate row and one assessor of the target
  type whose recorded inputs cannot be retrieved, the result has no entry for the row.
\<close>

theorem reconciliation_one_entry_per_row_counterexample:
  "compare_to_existing [mk_session (0::nat) [mk_assessor ''a1'' ''proc'' None]] ''proc''
     [[(''T1'', Item (Some ''p1''))]] = Inr []"
  by (simp add: compare_to_existing_def mk_session_def mk_assessor_def)

text \<open>
  Claim C7, amended. Let every assessor of the target type in the first session have
  recorded inputs. Then \<^verbatim>\<open>compare_to_existing\<close> returns exactly one entry per candidate
  row, in row order, holding the row and all assessors of the target type whose recorded
  inputs equal the row, in their order. Recorded inputs and a row (two dictionaries) are
  equal exactly when they are the same mapping: every key of either is a key of the other
  and the row binds it to the recorded value.
\<close>

theorem reconciliation_exact_match:
  assumes "\<forall>a \<in> set (assessors csess). otype a = proc_type \<longrightarrow> get_inputs a \<noteq> None"
  shows "compare_to_existing (csess # rest) proc_type parameter_matrix =
           Inr (map (\<lambda>p. (p, filter (\<lambda>a. otype a = proc_type \<and> recorded_equals a p)
                              (assessors csess))) parameter_matrix)
         \<and> (\<forall>a d p. get_inputs a = Some d \<and> distinct (map fst d) \<and> distinct (map fst p) \<longrightarrow>
               (recorded_equals a p \<longleftrightarrow>
                  (\<forall>k. map_of p k = map_option (\<lambda>v. Item (Some v)) (map_of d k))))"
proof -
  let ?cs = "filter (\<lambda>a. otype a = proc_type) (assessors csess)"
  have all: "\<forall>c \<in> set ?cs. get_inputs c \<noteq> None" using assms by auto
  have len: "length (replicate (length parameter_matrix) ([]::xnat_object list)) = length parameter_matrix"
    by simp
  have "zip parameter_matrix
          (map (\<lambda>(p, as'). as' @ filter (\<lambda>a. recorded_equals a p) ?cs)
             (zip parameter_matrix (replicate (length parameter_matrix) [])))
        = map (\<lambda>p. (p, filter (\<lambda>a. otype a = proc_type \<and> recorded_equals a p)
                              (assessors csess))) parameter_matrix"
    by (induction parameter_matrix) (auto simp: conj_commute)
  then have 1: "compare_to_existing (csess # rest) proc_type parameter_matrix =
           Inr (map (\<lambda>p. (p, filter (\<lambda>a. otype a = proc_type \<and> recorded_equals a p)
                              (assessors csess))) parameter_matrix)"
    using compare_loop_Some [OF all len] by (simp add: compare_to_existing_def)
  have 2: "\<forall>a d p. get_inputs a = Some d \<and> distinct (map fst d) \<and> distinct (map fst p) \<longrightarrow>
               (recorded_equals a p \<longleftrightarrow>
                  (\<forall>k. map_of p k = map_option (\<lambda>v. Item (Some v)) (map_of d k)))"
  proof (intro allI impI)
    fix a :: xnat_object and d :: "(string, string) dict" and p :: parameter_row
    assume h: "get_inputs a = Some d \<and> distinct (map fst d) \<and> distinct (map fst p)"
    then have "recorded_equals a p \<longleftrightarrow> map_of (decode_inputs d) = map_of p"
      by (simp add: recorded_equals_def dict_eq_iff_map_of distinct_decode_inputs)
    also have "\<dots> \<longleftrightarrow> (\<forall>k. map_of p k = map_option (\<lambda>v. Item (Some v)) (map_of d k))"
      using h by (auto simp: fun_eq_iff map_of_decode_inputs)
    finally show "recorded_equals a p \<longleftrightarrow>
                  (\<forall>k. map_of p k = map_option (\<lambda>v. Item (Some v)) (map_of d k))" .
  qed
  from 1 2 show ?thesis by blast
qed

theorem reconciliation_exact_match_witness:
  "compare_to_existing
     [mk_session (0::nat) [mk_assessor ''a1'' ''proc'' (Some [(''T1'', ''p1'')])]] ''proc''
     [[(''T1'', Item (Some ''p1''))],
      [(''T1'', Item (Some ''p1'')), (''T2'', Item (Some ''p2''))]]
   = Inr [([(''T1'', Item (Some ''p1''))], [mk_assessor ''a1'' ''proc'' (Some [(''T1'', ''p1'')])]),
          ([(''T1'', Item (Some ''p1'')), (''T2'', Item (Some ''p2''))], [])]"
proof -
  have h: "\<forall>a \<in> set (assessors (mk_session (0::nat)
              [mk_assessor ''a1'' ''proc'' (Some [(''T1'', ''p1'')])])).
             otype a = ''proc'' \<longrightarrow> get_inputs a \<noteq> None"
    by (simp add: mk_session_def mk_assessor_def)
  have e1: "recorded_equals (mk_assessor ''a1'' ''proc'' (Some [(''T1'', ''p1'')]))
              [(''T1'', Item (Some ''p1''))]"
    by (simp add: recorded_equals_def mk_assessor_def decode_inputs_def dict_eq_def)
  have e2: "\<not> recorded_equals (mk_assessor ''a1'' ''proc'' (Some [(''T1'', ''p1'')]))
              [(''T1'', Item (Some ''p1'')), (''T2'', Item (Some ''p2''))]"
    by (simp add: recorded_equals_def mk_assessor_def decode_inputs_def dict_eq_def)
  have t: "otype (mk_assessor ''a1'' ''proc'' (Some [(''T1'', ''p1'')])) = ''proc''"
    by (simp add: mk_assessor_def)
  from reconciliation_exact_match [OF h, of "[]" "[[(''T1'', Item (Some ''p1''))],
      [(''T1'', Item (Some ''p1'')), (''T2'', Item (Some ''p2''))]]"]
  show ?thesis using e1 e2 t by (simp add: mk_session_def)
qed

section \<open>The ordering check of parse_session\<close>

lemma sessions_ordered_iff:
  "sessions_ordered sessions \<longleftrightarrow>
     (\<forall>i. Suc i < length sessions \<longrightarrow>
        \<not> creation_timestamp (sessions ! i) < creation_timestamp (sessions ! Suc i))"
proof (induction sessions rule: sessions_ordered.induct)
  case (1 a b rest)
  show ?case
  proof (cases "creation_timestamp a < creation_timestamp b")
    case True
    then have "\<exists>i. Suc i < length (a # b # rest) \<and>
        creation_timestamp ((a # b # rest) ! i) < creation_timestamp ((a # b # rest) ! Suc i)"
      by (intro exI [of _ 0]) simp
    with True show ?thesis by auto
  next
    case False
    have "(\<forall>i. Suc i < length (a # b # rest) \<longrightarrow>
        \<not> creation_timestamp ((a # b # rest) ! i) < creation_timestamp ((a # b # rest) ! Suc i))
      \<longleftrightarrow> (\<forall>i. Suc i < length (b # rest) \<longrightarrow>
        \<not> creation_timestamp ((b # rest) ! i) < creation_timestamp ((b # rest) ! Suc i))"
      (is "?L \<longleftrightarrow> ?R")
    proof
      assume l: ?L
      show ?R
      proof (intro allI impI)
        fix i assume "Suc i < length (b # rest)"
        then have "Suc (Suc i) < length (a # b # rest)" by simp
        with l have "\<not> creation_timestamp ((a # b # rest) ! Suc i)
            < creation_timestamp ((a # b # rest) ! Suc (Suc i))" by blast
        then show "\<not> creation_timestamp ((b # rest) ! i) < creation_timestamp ((b # rest) ! Suc i)"
          by simp
      qed
    next
      assume r: ?R
      show ?L
      proof (intro allI impI)
        fix i assume i: "Suc i < length (a # b # rest)"
        show "\<not> creation_timestamp ((a # b # rest) ! i) < creation_timestamp ((a # b # rest) ! Suc i)"
        proof (cases i)
          case 0
          then show ?thesis using False by simp
        next
          case (Suc j)
          with i have "Suc j < length (b # rest)" by simp
          with r have "\<not> creation_timestamp ((b # rest) ! j) < creation_timestamp ((b # rest) ! Suc j)"
            by blast
          then show ?thesis using Suc by simp
        qed
      qed
    qed
    with 1 False show ?thesis by simp
  qed
qed simp_all

text \<open>
  Claim C6, as stated, fails: two sessions with the same timestamp are not strictly
  descending, and \<^verbatim>\<open>parse_session\<close> raises nothing for them.
\<close>

theorem parse_session_equal_timestamps_counterexample:
  "\<not> creation_timestamp (mk_session (5::nat) []) > creation_timestamp (mk_session (5::nat) [])
   \<and> fst (parse_session (\<lambda>c ss. Inr ([], [], [], [])) (mk_session (5::nat) [])
            [mk_session 5 [], mk_session 5 []]) = None"
  by (simp add: parse_session_def mk_session_def)

text \<open>
  Claim C6, amended. If some session is directly followed by one with a greater
  timestamp, \<^verbatim>\<open>parse_session\<close> raises \<^verbatim>\<open>ValueError\<close> before any later stage runs:
  whatever the stages are, the catalogue, the candidates, the matrix and the
  reconciliation are left unset. If no session is directly followed by one with a
  greater timestamp (equal timestamps allowed), the ordering check raises nothing: the
  call raises exactly what its later stages raise.
\<close>

theorem parse_session_ordering_check:
  "((\<exists>i. Suc i < length sessions \<and>
        creation_timestamp (sessions ! i) < creation_timestamp (sessions ! Suc i)) \<longrightarrow>
      parse_session stages csess' sessions =
        (Some ValueError,
         \<lparr>self_csess = None, self_sessions = Some sessions, self_artefacts = None,
          self_artefacts_by_input = None, self_parameter_matrix = None,
          self_assessor_parameter_map = None\<rparr>))
   \<and> ((\<forall>i. Suc i < length sessions \<longrightarrow>
         creation_timestamp (sessions ! Suc i) \<le> creation_timestamp (sessions ! i)) \<longrightarrow>
       fst (parse_session stages csess' sessions) =
         (case stages csess' sessions of Inl e \<Rightarrow> Some e | Inr r \<Rightarrow> None))"
proof (intro conjI impI)
  assume "\<exists>i. Suc i < length sessions \<and>
        creation_timestamp (sessions ! i) < creation_timestamp (sessions ! Suc i)"
  then have "\<not> sessions_ordered sessions" by (simp add: sessions_ordered_iff)
  then show "parse_session stages csess' sessions =
        (Some ValueError,
         \<lparr>self_csess = None, self_sessions = Some sessions, self_artefacts = None,
          self_artefacts_by_input = None, self_parameter_matrix = None,
          self_assessor_parameter_map = None\<rparr>)"
    by (simp add: parse_session_def)
next
  assume "\<forall>i. Suc i < length sessions \<longrightarrow>
         creation_timestamp (sessions ! Suc i) \<le> creation_timestamp (sessions ! i)"
  then have "sessions_ordered sessions" by (simp add: sessions_ordered_iff not_less)
  then show "fst (parse_session stages csess' sessions) =
         (case stages csess' sessions of Inl e \<Rightarrow> Some e | Inr r \<Rightarrow> None)"
    by (simp add: parse_session_def Let_def split: sum.splits prod.splits)
qed

theorem parse_session_ordering_check_witness:
  "parse_session (\<lambda>c ss. Inr ([], [], [], [])) (mk_session (2::nat) [])
       [mk_session 2 [], mk_session 3 []] =
     (Some ValueError,
      \<lparr>self_csess = None, self_sessions = Some [mk_session 2 [], mk_session 3 []],
       self_artefacts = None, self_artefacts_by_input = None, self_parameter_matrix = None,
       self_assessor_parameter_map = None\<rparr>)
   \<and> fst (parse_session (\<lambda>c ss. Inr ([], [], [], [])) (mk_session (3::nat) [])
            [mk_session 3 [], mk_session 3 [], mk_session 1 []]) = None"
proof -
  have a: "\<exists>i. Suc i < length [mk_session (2::nat) [], mk_session 3 []] \<and>
        creation_timestamp ([mk_session (2::nat) [], mk_session 3 []] ! i)
          < creation_timestamp ([mk_session (2::nat) [], mk_session 3 []] ! Suc i)"
    by (intro exI [of _ 0]) (simp add: mk_session_def)
  have b: "\<forall>i. Suc i < length [mk_session (3::nat) [], mk_session 3 [], mk_session 1 []] \<longrightarrow>
         creation_timestamp ([mk_session (3::nat) [], mk_session 3 [], mk_session 1 []] ! Suc i)
           \<le> creation_timestamp ([mk_session (3::nat) [], mk_session 3 [], mk_session 1 []] ! i)"
    by (simp add: mk_session_def less_Suc_eq nth_Cons')
  from parse_session_ordering_check
         [of "[mk_session (2::nat) [], mk_session 3 []]" "\<lambda>c ss. Inr ([], [], [], [])"
             "mk_session (2::nat) []"] a
  have 1: "parse_session (\<lambda>c ss. Inr ([], [], [], [])) (mk_session (2::nat) [])
       [mk_session 2 [], mk_session 3 []] =
     (Some ValueError,
      \<lparr>self_csess = None, self_sessions = Some [mk_session 2 [], mk_session 3 []],
       self_artefacts = None, self_artefacts_by_input = None, self_parameter_matrix = None,
       self_assessor_parameter_map = None\<rparr>)" by blast
  from parse_session_ordering_check
         [of "[mk_session (3::nat) [], mk_session 3 [], mk_session 1 []]"
             "\<lambda>c ss. Inr ([], [], [], [])" "mk_session (3::nat) []"] b
  have 2: "fst (parse_session (\<lambda>c ss. Inr ([], [], [], [])) (mk_session (3::nat) [])
            [mk_session 3 [], mk_session 3 [], mk_session 1 []]) = None" by simp
  from 1 2 show ?thesis by blast
qed

section \<open>Mode tokens outside the recognised set\<close>

lemma get_args_accepts:
  "(find_char CHR ''('' s = None) = (find_char CHR '')'' s = None) \<Longrightarrow>
   \<exists>token args. get_args s = Inr (token # args)"
  by (auto simp: get_args_def split: option.splits)

lemma register_other:
  "token \<notin> set select_namespace \<Longrightarrow>
   register_iteration_references n (token # args) regs = Inr regs"
  by (cases regs) (simp add: register_iteration_references_def select_namespace_def)

text \<open>
  Claim C5, as stated, fails: the artefact-select statement \<^verbatim>\<open>each\<close> is parsed, and
  its registration returns normally, with both registries as they were.
\<close>

theorem unrecognised_select_mode_counterexample:
  "parse_select (Some ''each'') = Inr [''each'']
   \<and> register_iteration_references ''X'' [''each''] ({}, []) = Inr ({}, [])"
  by (simp add: parse_select_def get_args_def strip_def isspace_def
      register_iteration_references_def)

text \<open>
  Claim C5, amended. An artefact-select statement that, stripped, has both or neither
  of the two parentheses is parsed without error into a token and its arguments; if the
  token is none of the keys of \<^verbatim>\<open>select_namespace\<close>, its registration raises nothing
  and leaves both registries unchanged, for every input name.
\<close>

theorem unrecognised_select_mode_registered_silently:
  assumes "(find_char CHR ''('' (strip statement) = None)
             = (find_char CHR '')'' (strip statement) = None)"
  shows "\<exists>token args. parse_select (Some statement) = Inr (token # args) \<and>
           (token \<notin> set select_namespace \<longrightarrow>
              (\<forall>n regs. register_iteration_references n (token # args) regs = Inr regs))"
proof -
  from get_args_accepts [OF assms] obtain token args
    where "get_args (strip statement) = Inr (token # args)" by blast
  then have "parse_select (Some statement) = Inr (token # args)"
    by (simp add: parse_select_def)
  then show ?thesis using register_other by blast
qed

theorem unrecognised_select_mode_registered_silently_witness:
  "parse_select (Some ''each(3)'') = Inr [''each'', ''3'']
   \<and> register_iteration_references ''X'' [''each'', ''3''] ({''A''}, [(''B'', ''A'')])
       = Inr ({''A''}, [(''B'', ''A'')])"
proof -
  have wf: "(find_char CHR ''('' (strip ''each(3)'') = None)
             = (find_char CHR '')'' (strip ''each(3)'') = None)"
    by (simp add: strip_def isspace_def)
  have p: "parse_select (Some ''each(3)'') = Inr [''each'', ''3'']"
    by (simp add: parse_select_def get_args_def strip_def isspace_def slice_def str_split_def)
  have n: "''each'' \<notin> set select_namespace" by (simp add: select_namespace_def)
  from unrecognised_select_mode_registered_silently [OF wf] p n
  have "register_iteration_references ''X'' [''each'', ''3''] ({''A''}, [(''B'', ''A'')])
       = Inr ({''A''}, [(''B'', ''A'')])" by auto
  with p show ?thesis by blast
qed

text \<open>
  A session-select token outside the recognised set does not get as far: the parser
  itself fails on the unassigned \<^verbatim>\<open>delta\<close>.
\<close>

lemma parse_session_select_unrecognised:
  "parse_session_select (Some ''latest'') = Inl UnboundLocalError"
  by (simp add: parse_session_select_def get_args_def strip_def isspace_def)

section \<open>The two registries\<close>

text \<open>What one registration does to the two registries.\<close>

lemma register_effect:
  assumes "register_iteration_references n (token # args) (S, M) = Inr (S', M')"
  shows "(\<forall>m. m \<noteq> n \<longrightarrow> (m \<in> S' \<longleftrightarrow> m \<in> S) \<and> map_of M' m = map_of M m)"
    and "token = ''foreach'' \<and> args = [] \<or> token = ''one'' \<or> token = ''all'' \<Longrightarrow>
           n \<in> S' \<and> map_of M' n = map_of M n"
    and "token = ''foreach'' \<and> args \<noteq> [] \<or> token = ''from'' \<Longrightarrow>
           (n \<in> S' \<longleftrightarrow> n \<in> S) \<and> map_of M' n = Some (hd args)"
  using assms
  by (auto simp: register_iteration_references_def map_of_dict_set
      split: if_splits list.splits)

lemma parse_entry_registers:
  assumes "parse_entry kind s st = Inr st'"
  shows "\<exists>token args. parse_select (y_select s) = Inr (token # args) \<and>
           register_iteration_references (y_name s) (token # args)
             (ps_iteration_sources st, ps_iteration_map st)
           = Inr (ps_iteration_sources st', ps_iteration_map st')"
proof -
  from assms obtain sel where sel: "parse_select (y_select s) = Inr sel"
    by (auto simp: parse_entry_def split: sum.splits)
  from assms sel obtain S' M' where reg:
    "register_iteration_references (y_name s) sel (ps_iteration_sources st, ps_iteration_map st)
       = Inr (S', M')"
    by (auto simp: parse_entry_def split: sum.splits)
  from assms sel reg have "ps_iteration_sources st' = S'" "ps_iteration_map st' = M'"
    by (auto simp: parse_entry_def Let_def split: sum.splits if_splits option.splits)
  moreover from reg obtain token args where "sel = token # args"
    by (cases sel) (auto simp: register_iteration_references_def)
  ultimately show ?thesis using sel reg by auto
qed

lemma parse_entries_registers:
  assumes "parse_entries kind ss st = Inr st'" and "distinct (map y_name ss)"
  shows "(\<forall>m. m \<notin> set (map y_name ss) \<longrightarrow>
            (m \<in> ps_iteration_sources st' \<longleftrightarrow> m \<in> ps_iteration_sources st) \<and>
            map_of (ps_iteration_map st') m = map_of (ps_iteration_map st) m)
         \<and> (\<forall>s \<in> set ss. classified (ps_iteration_sources st, ps_iteration_map st)
               (ps_iteration_sources st', ps_iteration_map st') s)"
  using assms
proof (induction ss arbitrary: st)
  case Nil
  then show ?case by simp
next
  case (Cons s ss)
  from Cons.prems(1) obtain st1 where st1: "parse_entry kind s st = Inr st1"
    and rest: "parse_entries kind ss st1 = Inr st'"
    by (auto split: sum.splits)
  from Cons.prems(2) have d: "distinct (map y_name ss)" and notin: "y_name s \<notin> set (map y_name ss)"
    by auto
  note ih = Cons.IH [OF rest d]
  from parse_entry_registers [OF st1] obtain token args where
    sel: "parse_select (y_select s) = Inr (token # args)" and
    reg: "register_iteration_references (y_name s) (token # args)
             (ps_iteration_sources st, ps_iteration_map st)
           = Inr (ps_iteration_sources st1, ps_iteration_map st1)" by blast
  note eff = register_effect [OF reg]
  have other: "\<forall>m. m \<notin> set (map y_name (s # ss)) \<longrightarrow>
            (m \<in> ps_iteration_sources st' \<longleftrightarrow> m \<in> ps_iteration_sources st) \<and>
            map_of (ps_iteration_map st') m = map_of (ps_iteration_map st) m"
    using ih eff(1) by simp
  have head: "classified (ps_iteration_sources st, ps_iteration_map st)
               (ps_iteration_sources st', ps_iteration_map st') s"
    unfolding classified_def using sel eff(2,3) ih notin
    by (intro exI [of _ token] exI [of _ args]) simp
  have tail: "\<forall>s' \<in> set ss. classified (ps_iteration_sources st, ps_iteration_map st)
               (ps_iteration_sources st', ps_iteration_map st') s'"
  proof
    fix s' assume s': "s' \<in> set ss"
    have ne: "y_name s' \<noteq> y_name s"
    proof
      assume "y_name s' = y_name s"
      with s' have "y_name s \<in> y_name ` set ss" by (metis imageI)
      with notin show False by simp
    qed
    from ih s' have c: "classified (ps_iteration_sources st1, ps_iteration_map st1)
               (ps_iteration_sources st', ps_iteration_map st') s'" by blast
    show "classified (ps_iteration_sources st, ps_iteration_map st)
               (ps_iteration_sources st', ps_iteration_map st') s'"
      using c eff(1) ne unfolding classified_def by simp
  qed
  from other head tail show ?case by simp
qed

text \<open>
  Claim C3, as stated, fails: a document declaring an input with the directive
  \<^verbatim>\<open>some(2)\<close> and one with the token \<^verbatim>\<open>any\<close> is parsed without error, and both
  inputs are in neither registry.
\<close>

theorem registries_counterexample:
  "parse_inputs (Some \<lparr>y_scans = [mk_entry ''X'' (Some ''some(2)'') ''T1'',
                                    mk_entry ''Y'' (Some ''any'') ''T2''],
                        y_assessors = []\<rparr>)
   = Inr ([(''X'', \<lparr>types = [''T1''], select = [''some'', ''2''],
                    select_session = \<lparr>mode = ''current'', delta = 0\<rparr>,
                    artefact_type = ''scan'', needs_qc = False, resources = [],
                    required = False\<rparr>),
           (''Y'', \<lparr>types = [''T2''], select = [''any''],
                    select_session = \<lparr>mode = ''current'', delta = 0\<rparr>,
                    artefact_type = ''scan'', needs_qc = False, resources = [],
                    required = False\<rparr>)],
          [(''T1'', {''X''}), (''T2'', {''Y''})], {}, [], 0)"
  by (simp add: parse_inputs_def parse_entry_def mk_entry_def parse_select_def
      parse_session_select_def get_args_def strip_def isspace_def slice_def str_split_def
      register_iteration_references_def Let_def)

text \<open>
  Claim C3, amended. Let a document with pairwise different input names be parsed
  without error. Every declared input whose directive is \<^verbatim>\<open>foreach\<close>, \<^verbatim>\<open>one\<close>,
  \<^verbatim>\<open>all\<close> or \<^verbatim>\<open>from\<close> is then in exactly one registry: in the iteration sources
  and not in the iteration map for \<^verbatim>\<open>foreach\<close> without argument, \<^verbatim>\<open>one\<close> and
  \<^verbatim>\<open>all\<close>; in the iteration map, bound to its first argument, and not in the iteration
  sources for \<^verbatim>\<open>foreach\<close> with an argument and for \<^verbatim>\<open>from\<close>.
\<close>

theorem registries_classify_each_input:
  assumes "parse_inputs (Some x) = Inr (inputs, inputs_by_type, iteration_sources, iteration_map, psc)"
    and "distinct (map y_name (y_scans x @ y_assessors x))"
    and "s \<in> set (y_scans x @ y_assessors x)"
  shows "\<exists>token args. parse_select (y_select s) = Inr (token # args) \<and>
           (token = ''foreach'' \<and> args = [] \<or> token = ''one'' \<or> token = ''all'' \<longrightarrow>
              y_name s \<in> iteration_sources \<and> map_of iteration_map (y_name s) = None) \<and>
           (token = ''foreach'' \<and> args \<noteq> [] \<or> token = ''from'' \<longrightarrow>
              y_name s \<notin> iteration_sources \<and> map_of iteration_map (y_name s) = Some (hd args))"
proof -
  let ?st0 = "\<lparr>ps_inputs = [], ps_inputs_by_type = [], ps_iteration_sources = {},
                  ps_iteration_map = [], ps_prior_session_count = 0, ps_r = None\<rparr>"
  from assms(1) obtain st1 st2 where
    p1: "parse_entries ''scan'' (y_scans x) ?st0 = Inr st1" and
    p2: "parse_entries ''assessor'' (y_assessors x) st1 = Inr st2" and
    S: "iteration_sources = ps_iteration_sources st2" and
    M: "iteration_map = ps_iteration_map st2"
    by (auto simp: parse_inputs_def split: sum.splits)
  from assms(2) have d1: "distinct (map y_name (y_scans x))"
    and d2: "distinct (map y_name (y_assessors x))"
    and dis: "set (map y_name (y_scans x)) \<inter> set (map y_name (y_assessors x)) = {}"
    by auto
  note r1 = parse_entries_registers [OF p1 d1]
  note r2 = parse_entries_registers [OF p2 d2]
  from assms(3) consider (scan) "s \<in> set (y_scans x)" | (assessor) "s \<in> set (y_assessors x)"
    by auto
  then show ?thesis
  proof cases
    case scan
    with dis have "y_name s \<notin> set (map y_name (y_assessors x))" by auto
    with r2 have same: "(y_name s \<in> ps_iteration_sources st2 \<longleftrightarrow> y_name s \<in> ps_iteration_sources st1)"
      "map_of (ps_iteration_map st2) (y_name s) = map_of (ps_iteration_map st1) (y_name s)"
      by blast+
    from r1 scan have "classified ({}, []) (ps_iteration_sources st1, ps_iteration_map st1) s"
      by auto
    then show ?thesis unfolding classified_def S M using same by simp
  next
    case assessor
    with dis have "y_name s \<notin> set (map y_name (y_scans x))" by auto
    with r1 have same: "y_name s \<notin> ps_iteration_sources st1"
      "map_of (ps_iteration_map st1) (y_name s) = None"
      by auto
    from r2 assessor have "classified (ps_iteration_sources st1, ps_iteration_map st1)
        (ps_iteration_sources st2, ps_iteration_map st2) s"
      by auto
    then show ?thesis unfolding classified_def S M using same by simp
  qed
qed

theorem registries_classify_each_input_witness:
  "parse_select (y_select (mk_entry ''B'' (Some ''foreach(A)'') ''T2'')) = Inr [''foreach'', ''A'']
   \<and> parse_inputs (Some \<lparr>y_scans = [mk_entry ''A'' None ''T1'',
                                       mk_entry ''B'' (Some ''foreach(A)'') ''T2''],
                           y_assessors = []\<rparr>)
       = Inr ([(''A'', \<lparr>types = [''T1''], select = [''foreach''],
                        select_session = \<lparr>mode = ''current'', delta = 0\<rparr>,
                        artefact_type = ''scan'', needs_qc = False, resources = [],
                        required = False\<rparr>),
               (''B'', \<lparr>types = [''T2''], select = [''foreach'', ''A''],
                        select_session = \<lparr>mode = ''current'', delta = 0\<rparr>,
                        artefact_type = ''scan'', needs_qc = False, resources = [],
                        required = False\<rparr>)],
              [(''T1'', {''A''}), (''T2'', {''B''})], {''A''}, [(''B'', ''A'')], 0)
   \<and> ''B'' \<notin> {''A''} \<and> map_of [(''B'', ''A'')] ''B'' = Some ''A''"
proof -
  let ?x = "\<lparr>y_scans = [mk_entry ''A'' None ''T1'', mk_entry ''B'' (Some ''foreach(A)'') ''T2''],
             y_assessors = []\<rparr>"
  have p: "parse_inputs (Some ?x)
       = Inr ([(''A'', \<lparr>types = [''T1''], select = [''foreach''],
                        select_session = \<lparr>mode = ''current'', delta = 0\<rparr>,
                        artefact_type = ''scan'', needs_qc = False, resources = [],
                        required = False\<rparr>),
               (''B'', \<lparr>types = [''T2''], select = [''foreach'', ''A''],
                        select_session = \<lparr>mode = ''current'', delta = 0\<rparr>,
                        artefact_type = ''scan'', needs_qc = False, resources = [],
                        required = False\<rparr>)],
              [(''T1'', {''A''}), (''T2'', {''B''})], {''A''}, [(''B'', ''A'')], 0)"
    by (simp add: parse_inputs_def parse_entry_def mk_entry_def parse_select_def
        parse_session_select_def get_args_def strip_def isspace_def slice_def str_split_def
        register_iteration_references_def Let_def)
  have d: "distinct (map y_name (y_scans ?x @ y_assessors ?x))" by (simp add: mk_entry_def)
  have m: "mk_entry ''B'' (Some ''foreach(A)'') ''T2'' \<in> set (y_scans ?x @ y_assessors ?x)"
    by simp
  have s: "parse_select (y_select (mk_entry ''B'' (Some ''foreach(A)'') ''T2''))
             = Inr [''foreach'', ''A'']"
    by (simp add: mk_entry_def parse_select_def get_args_def strip_def isspace_def slice_def
        str_split_def)
  from registries_classify_each_input [OF p d m] s
  have "''B'' \<notin> {''A''} \<and> map_of [(''B'', ''A'')] ''B'' = Some ''A''"
    by (simp add: mk_entry_def)
  with p s show ?thesis by blast
qed

section \<open>Independent foreach sources\<close>

lemma inputs_present_True:
  "\<forall>(j, jv) \<in> set inputs. \<exists>c. map_of abi j = Some c \<and> \<not> (c = [] \<and> required jv) \<Longrightarrow>
   inputs_present inputs abi = Inr True"
  by (induction inputs) auto

lemma sanitise_inputs_result:
  "\<forall>(j, jv) \<in> set inputs. map_of abi j \<noteq> None \<Longrightarrow>
   \<exists>san. sanitise_inputs inputs abi acc = Inr san \<and>
     (\<forall>i. map_of san i =
        (if i \<in> fst ` set inputs then map_option sanitised (map_of abi i) else map_of acc i))"
proof (induction inputs arbitrary: acc)
  case Nil
  then show ?case by simp
next
  case (Cons p inputs)
  obtain j jv where p: "p = (j, jv)" by (cases p)
  from Cons.prems p obtain c where c: "map_of abi j = Some c" by auto
  from Cons.prems have "\<forall>(j, jv) \<in> set inputs. map_of abi j \<noteq> None" by simp
  from Cons.IH [OF this, of "dict_set acc j (sanitised c)"]
  obtain san where san: "sanitise_inputs inputs abi (dict_set acc j (sanitised c)) = Inr san"
    and look: "\<forall>i. map_of san i =
        (if i \<in> fst ` set inputs then map_option sanitised (map_of abi i)
         else map_of (dict_set acc j (sanitised c)) i)" by blast
  have "sanitise_inputs (p # inputs) abi acc = Inr san" using p c san by simp
  moreover have "\<forall>i. map_of san i =
        (if i \<in> fst ` set (p # inputs) then map_option sanitised (map_of abi i) else map_of acc i)"
    using look p c by (auto simp: map_of_dict_set)
  ultimately show ?case by blast
qed

lemma min_entry_count_single: "min_entry_count [c] = length c"
  by (simp add: min_entry_count_def)

lemma merged_input_vector_single: "merged_input_vector [c] = map (\<lambda>x. [Item x]) c"
proof -
  have "map (\<lambda>row. [Item (c ! row)]) [0..<length c] = map (\<lambda>x. [Item x]) (map (nth c) [0..<length c])"
    by simp
  then show ?thesis by (simp add: merged_input_vector_def min_entry_count_single map_nth)
qed

lemma foreach_dimension_without_dependents:
  assumes "map_of inputs i = Some iv" and "select iv = ''foreach'' # args"
    and "map_of san i = Some c"
  shows "source_dimension inputs san arts [] i = Inr ([i], Some (map (\<lambda>x. [Item x]) c))"
  using assms
  by (simp add: source_dimension_def combined_dimension_def merged_input_vector_single)

lemma build_rows_map:
  "\<forall>x \<in> set xs. build_row hs (f x) [] = Inr (g x) \<Longrightarrow>
   build_rows hs (map f xs) = Inr (map g xs)"
  by (induction xs) auto

lemma product_two:
  "itertools_product [map (\<lambda>x. [f x]) xs, map (\<lambda>y. [g y]) ys]
     = map (\<lambda>(x, y). [[f x], [g y]]) (List.product xs ys)"
proof -
  have 1: "itertools_product [map (\<lambda>y. [g y]) ys] = map (\<lambda>y. [[g y]]) ys"
    by (induction ys) auto
  show ?thesis unfolding itertools_product.simps(2) 1
    by (induction xs) (auto simp: comp_def)
qed


text \<open>
  Claim C2, as stated, fails: with a non-required source \<open>A\<close> without candidates
  (\<open>m = 0\<close>) and a source \<open>B\<close> with two candidates, the matrix has two rows, not
  \<open>m \<times> n = 0\<close>.
\<close>

theorem independent_foreach_sources_counterexample:
  "generate_parameter_matrix
     [(''A'', mk_input [''foreach''] False), (''B'', mk_input [''foreach''] True)]
     [''A'', ''B''] [] [] [(''A'', []), (''B'', [''b1'', ''b2''])]
   = Inr [[(''A'', Item None), (''B'', Item (Some ''b1''))],
          [(''A'', Item None), (''B'', Item (Some ''b2''))]]"
  by (simp add: generate_parameter_matrix_def mk_input_def sanitised_def source_dimension_def
      combined_dimension_def merged_input_vector_def min_entry_count_def)


text \<open>
  Claim C2, amended. Let \<open>A\<close> and \<open>B\<close> be two different \<^verbatim>\<open>foreach\<close> sources with
  candidate lists \<open>as\<close> and \<open>bs\<close>, let the set of iteration sources yield \<open>A\<close> before
  \<open>B\<close>, let there be no dependents, and let no required input lack candidates. Then
  the matrix is the list of the rows \<open>{A: a, B: b}\<close> for the pairs of the product of
  the two sanitised candidate lists, \<open>A\<close> varying slowest: an empty list of a
  non-required source counts as the single candidate \<^verbatim>\<open>None\<close>, so there are
  \<open>max 1 m * max 1 n\<close> rows. For non-empty lists these are the \<open>m * n\<close> combinations,
  row \<open>k\<close> pairing candidate \<open>k div n\<close> of \<open>A\<close> with candidate \<open>k mod n\<close> of \<open>B\<close>, each
  pair once when the lists have no repetition. The matrix is a function of the
  arguments and of that iteration order.
\<close>

theorem independent_foreach_sources_product:
  assumes gate: "\<forall>(j, jv) \<in> set inputs.
                   \<exists>c. map_of artefacts_by_input j = Some c \<and> \<not> (c = [] \<and> required jv)"
    and A: "map_of inputs A = Some iA" "select iA = ''foreach'' # argsA"
           "map_of artefacts_by_input A = Some as"
    and B: "map_of inputs B = Some iB" "select iB = ''foreach'' # argsB"
           "map_of artefacts_by_input B = Some bs"
    and AB: "A \<noteq> B"
  shows "generate_parameter_matrix inputs [A, B] [] artefacts artefacts_by_input =
           Inr (map (\<lambda>(a, b). [(A, Item a), (B, Item b)])
                  (List.product (sanitised as) (sanitised bs)))
         \<and> length (List.product (sanitised as) (sanitised bs))
             = max 1 (length as) * max 1 (length bs)
         \<and> (as \<noteq> [] \<and> bs \<noteq> [] \<longrightarrow>
              List.product (sanitised as) (sanitised bs)
                = map (\<lambda>(a, b). (Some a, Some b)) (List.product as bs)
              \<and> (\<forall>k < length as * length bs.
                    List.product as bs ! k = (as ! (k div length bs), bs ! (k mod length bs)))
              \<and> (distinct as \<and> distinct bs \<longrightarrow> distinct (List.product as bs)))"
proof -
  have present: "inputs_present inputs artefacts_by_input = Inr True"
    using gate by (rule inputs_present_True)
  have "\<forall>(j, jv) \<in> set inputs. map_of artefacts_by_input j \<noteq> None" using gate by auto
  from sanitise_inputs_result [OF this, of "[]"] obtain san where
    san: "sanitise_inputs inputs artefacts_by_input [] = Inr san" and
    look: "\<forall>i. map_of san i =
        (if i \<in> fst ` set inputs then map_option sanitised (map_of artefacts_by_input i)
         else map_of [] i)" by blast
  from A(1) have "A \<in> fst ` set inputs" by (metis map_of_SomeD fst_conv image_eqI)
  with look A(3) have sA: "map_of san A = Some (sanitised as)" by simp
  from B(1) have "B \<in> fst ` set inputs" by (metis map_of_SomeD fst_conv image_eqI)
  with look B(3) have sB: "map_of san B = Some (sanitised bs)" by simp
  have dA: "source_dimension inputs san artefacts [] A
              = Inr ([A], Some (map (\<lambda>x. [Item x]) (sanitised as)))"
    using A(1,2) sA by (rule foreach_dimension_without_dependents)
  have dB: "source_dimension inputs san artefacts [] B
              = Inr ([B], Some (map (\<lambda>x. [Item x]) (sanitised bs)))"
    using B(1,2) sB by (rule foreach_dimension_without_dependents)
  have dims: "all_dimensions inputs san artefacts [] [A, B]
      = Inr ([[A], [B]], [Some (map (\<lambda>x. [Item x]) (sanitised as)),
                          Some (map (\<lambda>x. [Item x]) (sanitised bs))])"
    by (simp add: dA dB)
  have rows: "build_rows [A, B]
                (map (\<lambda>(a, b). concat [[Item a], [Item b]])
                   (List.product (sanitised as) (sanitised bs)))
              = Inr (map (\<lambda>(a, b). [(A, Item a), (B, Item b)])
                       (List.product (sanitised as) (sanitised bs)))"
    by (rule build_rows_map) (use AB in auto)
  have 1: "generate_parameter_matrix inputs [A, B] [] artefacts artefacts_by_input =
           Inr (map (\<lambda>(a, b). [(A, Item a), (B, Item b)])
                  (List.product (sanitised as) (sanitised bs)))"
  proof -
    have "generate_parameter_matrix inputs [A, B] [] artefacts artefacts_by_input =
            build_rows (concat [[A], [B]])
              (map concat (itertools_product [map (\<lambda>x. [Item x]) (sanitised as),
                                              map (\<lambda>x. [Item x]) (sanitised bs)]))"
      by (simp add: generate_parameter_matrix_def present san dims
          del: itertools_product.simps all_dimensions.simps)
    also have "\<dots> = build_rows [A, B]
                (map (\<lambda>(a, b). concat [[Item a], [Item b]])
                   (List.product (sanitised as) (sanitised bs)))"
      unfolding product_two by (simp add: comp_def split_def)
    finally show ?thesis using rows by simp
  qed
  have 2: "length (List.product (sanitised as) (sanitised bs))
             = max 1 (length as) * max 1 (length bs)"
    by (auto simp: sanitised_def max_def Suc_le_eq)
  have 3: "as \<noteq> [] \<and> bs \<noteq> [] \<longrightarrow>
              List.product (sanitised as) (sanitised bs)
                = map (\<lambda>(a, b). (Some a, Some b)) (List.product as bs)
              \<and> (\<forall>k < length as * length bs.
                    List.product as bs ! k = (as ! (k div length bs), bs ! (k mod length bs)))
              \<and> (distinct as \<and> distinct bs \<longrightarrow> distinct (List.product as bs))"
  proof (intro impI conjI allI)
    assume ne: "as \<noteq> [] \<and> bs \<noteq> []"
    have "List.product (map Some as) (map Some bs)
            = map (\<lambda>(a, b). (Some a, Some b)) (List.product as bs)"
      by (induction as) (auto simp: comp_def)
    with ne show "List.product (sanitised as) (sanitised bs)
                = map (\<lambda>(a, b). (Some a, Some b)) (List.product as bs)"
      by (simp add: sanitised_def)
  next
    fix k assume "k < length as * length bs"
    then show "List.product as bs ! k = (as ! (k div length bs), bs ! (k mod length bs))"
      by (rule product_nth)
  next
    assume "distinct as \<and> distinct bs"
    then show "distinct (List.product as bs)" by (simp add: distinct_product)
  qed
  from 1 2 3 show ?thesis by blast
qed

theorem independent_foreach_sources_product_witness:
  "generate_parameter_matrix
     [(''A'', mk_input [''foreach''] True), (''B'', mk_input [''foreach''] True)]
     [''A'', ''B''] [] [] [(''A'', [''a1'', ''a2'', ''a3'']), (''B'', [''b1'', ''b2''])]
   = Inr [[(''A'', Item (Some ''a1'')), (''B'', Item (Some ''b1''))],
          [(''A'', Item (Some ''a1'')), (''B'', Item (Some ''b2''))],
          [(''A'', Item (Some ''a2'')), (''B'', Item (Some ''b1''))],
          [(''A'', Item (Some ''a2'')), (''B'', Item (Some ''b2''))],
          [(''A'', Item (Some ''a3'')), (''B'', Item (Some ''b1''))],
          [(''A'', Item (Some ''a3'')), (''B'', Item (Some ''b2''))]]"
proof -
  let ?inputs = "[(''A'', mk_input [''foreach''] True), (''B'', mk_input [''foreach''] True)]"
  let ?abi = "[(''A'', [''a1'', ''a2'', ''a3'']), (''B'', [''b1'', ''b2''])]"
  have gate: "\<forall>(j, jv) \<in> set ?inputs. \<exists>c. map_of ?abi j = Some c \<and> \<not> (c = [] \<and> required jv)"
    by simp
  have A: "map_of ?inputs ''A'' = Some (mk_input [''foreach''] True)"
    "select (mk_input [''foreach''] True) = ''foreach'' # []"
    "map_of ?abi ''A'' = Some [''a1'', ''a2'', ''a3'']"
    by (simp_all add: mk_input_def)
  have B: "map_of ?inputs ''B'' = Some (mk_input [''foreach''] True)"
    "select (mk_input [''foreach''] True) = ''foreach'' # []"
    "map_of ?abi ''B'' = Some [''b1'', ''b2'']"
    by (simp_all add: mk_input_def)
  have AB: "''A'' \<noteq> ''B''" by simp
  from independent_foreach_sources_product [OF gate A B AB, of "[]"]
  show ?thesis by (simp add: sanitised_def)
qed

section \<open>The directive some\<close>

text \<open>
  Claim C4 does not hold of the code. A specification whose only input \<open>X\<close> has the
  directive \<^verbatim>\<open>some(2)\<close> is parsed with the count as the string \<^verbatim>\<open>2\<close> and with \<open>X\<close> in
  neither registry. With one candidate for \<open>X\<close>, the matrix generated from the parsed
  registries is one row without any key, not one row holding the candidate. Were \<open>X\<close>
  among the iteration sources, the branch for \<^verbatim>\<open>some\<close> would raise \<^verbatim>\<open>TypeError\<close>, on
  the comparison of a length with the string count.
\<close>

theorem some_directive_is_never_expanded:
  "parse_inputs (Some \<lparr>y_scans = [mk_entry ''X'' (Some ''some(2)'') ''T1''], y_assessors = []\<rparr>)
     = Inr ([(''X'', \<lparr>types = [''T1''], select = [''some'', ''2''],
                      select_session = \<lparr>mode = ''current'', delta = 0\<rparr>,
                      artefact_type = ''scan'', needs_qc = False, resources = [],
                      required = False\<rparr>)],
            [(''T1'', {''X''})], {}, [], 0)
   \<and> generate_parameter_matrix
        [(''X'', \<lparr>types = [''T1''], select = [''some'', ''2''],
                  select_session = \<lparr>mode = ''current'', delta = 0\<rparr>,
                  artefact_type = ''scan'', needs_qc = False, resources = [],
                  required = False\<rparr>)]
        [] [] [] [(''X'', [''x1''])] = Inr [[]]
   \<and> generate_parameter_matrix
        [(''X'', \<lparr>types = [''T1''], select = [''some'', ''2''],
                  select_session = \<lparr>mode = ''current'', delta = 0\<rparr>,
                  artefact_type = ''scan'', needs_qc = False, resources = [],
                  required = False\<rparr>)]
        [''X''] [] [] [(''X'', [''x1''])] = Inl TypeError"
  by (simp add: parse_inputs_def parse_entry_def mk_entry_def parse_select_def
      parse_session_select_def get_args_def strip_def isspace_def slice_def str_split_def
      register_iteration_references_def Let_def generate_parameter_matrix_def sanitised_def
      source_dimension_def)

section \<open>Truncation to the shortest column\<close>

lemma length_merged_input_vector:
  "length (merged_input_vector (c # cols)) = Min (length ` set (c # cols))"
proof -
  have "min_list (map length (c # cols)) = Min (set (map length (c # cols)))"
    by (rule min_list_Min) simp
  then show ?thesis by (simp add: merged_input_vector_def min_entry_count_def)
qed

lemma nth_merged_input_vector:
  "k < length (merged_input_vector combined) \<Longrightarrow>
   merged_input_vector combined ! k = map (\<lambda>col. Item (col ! k)) combined"
  by (simp add: merged_input_vector_def)

text \<open>
  Claim C9. For a \<^verbatim>\<open>foreach\<close> source \<open>i\<close> with candidates \<open>c\<close> whose dependents have
  been collected as the columns \<open>cols\<close>, the dimension of \<open>i\<close> is obtained without
  error; it has as many row fragments as the shortest of the columns \<open>c # cols\<close> has
  entries, and fragment \<open>k\<close> holds entry \<open>k\<close> of every column, in column order. The
  entries beyond the shortest column are dropped.
\<close>

theorem columns_truncated_to_shortest:
  assumes "map_of inputs i = Some iv" and "select iv = ''foreach'' # args"
    and "map_of san i = Some c"
    and "map_dependents inputs san arts i iteration_map ([i], []) = Inr (mapped, cols)"
  shows "\<exists>frags. source_dimension inputs san arts iteration_map i = Inr (mapped, Some frags) \<and>
           length frags = Min (length ` set (c # cols)) \<and>
           (\<forall>k < length frags. frags ! k = map (\<lambda>col. Item (col ! k)) (c # cols))"
proof -
  have "source_dimension inputs san arts iteration_map i
          = Inr (mapped, Some (merged_input_vector (c # cols)))"
    using assms by (simp add: source_dimension_def combined_dimension_def)
  then show ?thesis
    using length_merged_input_vector [of c cols] nth_merged_input_vector [of _ "c # cols"]
    by blast
qed

theorem columns_truncated_to_shortest_witness:
  "source_dimension
     [(''A'', mk_input [''foreach''] True), (''B'', mk_input [''foreach'', ''A''] True)]
     [(''A'', [Some ''a1'', Some ''a2'', Some ''a3'']), (''B'', [Some ''b1'', Some ''b2''])]
     [] [(''B'', ''A'')] ''A''
   = Inr ([''A'', ''B''], Some [[Item (Some ''a1''), Item (Some ''b1'')],
                                [Item (Some ''a2''), Item (Some ''b2'')]])
   \<and> generate_parameter_matrix
       [(''A'', mk_input [''foreach''] True), (''B'', mk_input [''foreach'', ''A''] True)]
       [''A''] [(''B'', ''A'')] [] [(''A'', [''a1'', ''a2'', ''a3'']), (''B'', [''b1'', ''b2''])]
     = Inr [[(''A'', Item (Some ''a1'')), (''B'', Item (Some ''b1''))],
            [(''A'', Item (Some ''a2'')), (''B'', Item (Some ''b2''))]]"
proof -
  let ?inputs = "[(''A'', mk_input [''foreach''] True), (''B'', mk_input [''foreach'', ''A''] True)]"
  let ?san = "[(''A'', [Some ''a1'', Some ''a2'', Some ''a3'']), (''B'', [Some ''b1'', Some ''b2''])]"
  have h1: "map_of ?inputs ''A'' = Some (mk_input [''foreach''] True)" by simp
  have h2: "select (mk_input [''foreach''] True) = ''foreach'' # []" by (simp add: mk_input_def)
  have h3: "map_of ?san ''A'' = Some [Some ''a1'', Some ''a2'', Some ''a3'']" by simp
  have h4: "map_dependents ?inputs ?san [] ''A'' [(''B'', ''A'')] ([''A''], [])
              = Inr ([''A'', ''B''], [[Some ''b1'', Some ''b2'']])"
    by (simp add: mk_input_def)
  from columns_truncated_to_shortest [OF h1 h2 h3 h4] obtain frags where
    d: "source_dimension ?inputs ?san [] [(''B'', ''A'')] ''A'' = Inr ([''A'', ''B''], Some frags)"
    and l: "length frags = Min (length ` set [[Some ''a1'', Some ''a2'', Some ''a3''],
                                              [Some ''b1'', Some ''b2'']])"
    and n: "\<forall>k < length frags. frags ! k
              = map (\<lambda>col. Item (col ! k)) [[Some ''a1'', Some ''a2'', Some ''a3''],
                                                 [Some ''b1'', Some ''b2'']]"
    by blast
  from l have l2: "length frags = 2" by simp
  with n have "frags ! 0 = [Item (Some ''a1''), Item (Some ''b1'')]"
    and "frags ! 1 = [Item (Some ''a2''), Item (Some ''b2'')]" by simp_all
  with l2 have "frags = [[Item (Some ''a1''), Item (Some ''b1'')],
                         [Item (Some ''a2''), Item (Some ''b2'')]]"
    by (cases frags; cases "tl frags"; cases "tl (tl frags)") auto
  with d have 1: "source_dimension ?inputs ?san [] [(''B'', ''A'')] ''A''
      = Inr ([''A'', ''B''], Some [[Item (Some ''a1''), Item (Some ''b1'')],
                                   [Item (Some ''a2''), Item (Some ''b2'')]])" by simp
  have 2: "generate_parameter_matrix ?inputs [''A''] [(''B'', ''A'')] []
             [(''A'', [''a1'', ''a2'', ''a3'']), (''B'', [''b1'', ''b2''])]
     = Inr [[(''A'', Item (Some ''a1'')), (''B'', Item (Some ''b1''))],
            [(''A'', Item (Some ''a2'')), (''B'', Item (Some ''b2''))]]"
    by (simp add: generate_parameter_matrix_def mk_input_def sanitised_def source_dimension_def
        combined_dimension_def merged_input_vector_def min_entry_count_def upt_rec)
  from 1 2 show ?thesis by blast
qed

section \<open>Optional inputs without candidates\<close>

lemma build_row_lookup:
  "build_row hs r row0 = Inr row \<Longrightarrow>
   (k \<in> set hs \<longrightarrow> (\<exists>x. map_of row k = Some x \<and> (k, x) \<in> set (zip hs r))) \<and>
   (k \<notin> set hs \<longrightarrow> map_of row k = map_of row0 k)"
proof (induction hs r row0 rule: build_row.induct)
  case (1 r row0)
  then show ?case by simp
next
  case (2 h hs row0)
  then show ?case by simp
next
  case (3 h hs x xs row0)
  from "3.prems" have rest: "build_row hs xs (dict_set row0 h x) = Inr row" by simp
  note ih = "3.IH" [OF rest]
  show ?case
  proof (cases "k \<in> set hs")
    case True
    with ih show ?thesis by auto
  next
    case False
    with ih have "map_of row k = map_of (dict_set row0 h x) k" by simp
    then show ?thesis using False by (auto simp: map_of_dict_set)
  qed
qed

lemma build_row_distinct:
  "build_row hs r row0 = Inr row \<Longrightarrow> distinct (map fst row0) \<Longrightarrow> distinct (map fst row)"
  by (induction hs r row0 rule: build_row.induct) (auto simp: distinct_dict_set)

lemma build_row_ok:
  "length hs \<le> length r \<Longrightarrow> \<exists>row. build_row hs r row0 = Inr row"
  by (induction hs r row0 rule: build_row.induct) auto

lemma build_rows_ok:
  "\<forall>r \<in> set rs. length hs \<le> length r \<Longrightarrow>
   \<exists>rows. build_rows hs rs = Inr rows \<and> length rows = length rs"
proof (induction rs)
  case Nil
  then show ?case by simp
next
  case (Cons r rs)
  then obtain rows where rows: "build_rows hs rs = Inr rows" "length rows = length rs" by auto
  from Cons.prems have "length hs \<le> length r" by simp
  from build_row_ok [OF this, of "[]"] obtain row where "build_row hs r [] = Inr row" by blast
  with rows show ?case by simp
qed

lemma build_rows_mem:
  "build_rows hs rs = Inr rows \<Longrightarrow> row \<in> set rows \<Longrightarrow>
   \<exists>r \<in> set rs. build_row hs r [] = Inr row"
proof (induction rs arbitrary: rows)
  case Nil
  then show ?case by simp
next
  case (Cons r rs)
  from Cons.prems(1) obtain row1 rows1 where
    r1: "build_row hs r [] = Inr row1" and rs1: "build_rows hs rs = Inr rows1"
    and rows: "rows = row1 # rows1"
    by (auto split: sum.splits)
  from Cons.prems(2) rows consider "row = row1" | "row \<in> set rows1" by auto
  then show ?case
  proof cases
    case 1
    with r1 show ?thesis by auto
  next
    case 2
    from Cons.IH [OF rs1 2] show ?thesis by auto
  qed
qed

lemma itertools_product_mem:
  "t \<in> set (itertools_product ds) \<Longrightarrow> list_all2 (\<lambda>f d. f \<in> set d) t ds"
  by (induction ds arbitrary: t) auto

lemma itertools_product_nonempty:
  "\<forall>d \<in> set ds. d \<noteq> [] \<Longrightarrow> itertools_product ds \<noteq> []"
proof (induction ds)
  case Nil
  then show ?case by simp
next
  case (Cons d ds)
  then obtain x xs where d: "d = x # xs" by (cases d) auto
  from Cons have "itertools_product ds \<noteq> []" by simp
  then show ?case using d by simp
qed

lemma zip_concat_aligned:
  "list_all2 (\<lambda>m f. length f = length m \<and> (\<forall>(k, x) \<in> set (zip m f). P k x)) ms t \<Longrightarrow>
   length (concat t) = length (concat ms) \<and> (\<forall>(k, x) \<in> set (zip (concat ms) (concat t)). P k x)"
proof (induction rule: list_all2_induct)
  case Nil
  then show ?case by simp
next
  case (Cons m ms f t)
  then show ?case by auto
qed

lemma those_Some: "those ds = Some dims \<Longrightarrow> ds = map Some dims"
  by (induction ds arbitrary: dims) (auto split: option.splits)

lemma all_dimensions_each:
  "all_dimensions inputs san arts imap srcs = Inr (ms, ds) \<Longrightarrow>
   length ms = length srcs \<and> length ds = length srcs \<and>
   (\<forall>n < length srcs. source_dimension inputs san arts imap (srcs ! n) = Inr (ms ! n, ds ! n))"
proof (induction srcs arbitrary: ms ds)
  case Nil
  then show ?case by simp
next
  case (Cons j srcs)
  from Cons.prems obtain m d ms' ds' where
    j: "source_dimension inputs san arts imap j = Inr (m, d)" and
    rest: "all_dimensions inputs san arts imap srcs = Inr (ms', ds')" and
    eq: "ms = m # ms'" "ds = d # ds'"
    by (auto split: sum.splits prod.splits)
  from Cons.IH [OF rest] j eq show ?case
    by (auto simp: nth_Cons split: nat.splits)
qed

lemma min_entry_count_le:
  "c \<in> set combined \<Longrightarrow> min_entry_count combined \<le> length c"
proof -
  assume c: "c \<in> set combined"
  then have ne: "map length combined \<noteq> []" by auto
  have "min_list (map length combined) = Min (set (map length combined))"
    using ne by (rule min_list_Min)
  moreover have "Min (set (map length combined)) \<le> length c"
    using c by (intro Min_le) auto
  ultimately show ?thesis by (simp add: min_entry_count_def)
qed

lemma min_entry_count_positive:
  "combined \<noteq> [] \<Longrightarrow> \<forall>c \<in> set combined. c \<noteq> [] \<Longrightarrow> 0 < min_entry_count combined"
proof -
  assume ne: "combined \<noteq> []" and all: "\<forall>c \<in> set combined. c \<noteq> []"
  from ne have ne': "map length combined \<noteq> []" by simp
  have eq: "min_list (map length combined) = Min (set (map length combined))"
    using ne' by (rule min_list_Min)
  have "Min (set (map length combined)) \<in> set (map length combined)"
    using ne' by (intro Min_in) auto
  then obtain c where "c \<in> set combined" "Min (set (map length combined)) = length c" by auto
  with all eq show ?thesis by (auto simp: min_entry_count_def)
qed

text \<open>
  What the loop over the iteration map appends for the source \<open>j\<close>: names of keys of
  the map, each with its column; the column of a \<^verbatim>\<open>foreach\<close> dependent is its
  sanitised candidate list, and every \<^verbatim>\<open>foreach\<close> dependent that refers to \<open>j\<close> is
  appended.
\<close>

lemma map_dependents_appends:
  "map_dependents inputs san arts j imap (mapped, cols) = Inr (mapped', cols') \<Longrightarrow>
   \<exists>deps new. mapped' = mapped @ deps \<and> cols' = cols @ new \<and>
     list_all2 (\<lambda>k c. k \<in> fst ` set imap \<and>
                  (\<forall>kv r. map_of inputs k = Some kv \<and> select kv = ''foreach'' # r \<longrightarrow>
                     map_of san k = Some c)) deps new \<and>
     (\<forall>(k, v) \<in> set imap.
        (\<exists>kv r. map_of inputs k = Some kv \<and> select kv = ''foreach'' # r) \<and> v = j \<longrightarrow>
        k \<in> set deps)"
proof (induction imap arbitrary: mapped cols)
  case Nil
  then show ?case by simp
next
  case (Cons p imap)
  obtain k v where p: "p = (k, v)" by (cases p)
  let ?Q = "\<lambda>im k c. k \<in> fst ` set im \<and>
                  (\<forall>kv r. map_of inputs k = Some kv \<and> select kv = ''foreach'' # r \<longrightarrow>
                     map_of san k = Some c)"
  from Cons.prems p obtain kv fn r where kv: "map_of inputs k = Some kv" "select kv = fn # r"
    by (auto split: option.splits list.splits)
  from Cons.prems p kv obtain mapped1 cols1 where
    step: "(mapped1 = mapped \<and> cols1 = cols \<and> \<not> (fn = ''foreach'' \<and> v = j)) \<or>
           (\<exists>c. mapped1 = mapped @ [k] \<and> cols1 = cols @ [c] \<and>
                (fn = ''foreach'' \<longrightarrow> map_of san k = Some c))"
    and rest: "map_dependents inputs san arts j imap (mapped1, cols1) = Inr (mapped', cols')"
    by (auto split: option.splits list.splits if_splits sum.splits)
  from Cons.IH [OF rest] obtain deps new where
    d: "mapped' = mapped1 @ deps" "cols' = cols1 @ new" and
    q: "list_all2 (?Q imap) deps new" and
    a: "\<forall>(k, v) \<in> set imap.
        (\<exists>kv r. map_of inputs k = Some kv \<and> select kv = ''foreach'' # r) \<and> v = j \<longrightarrow>
        k \<in> set deps" by blast
  have q': "list_all2 (?Q (p # imap)) deps new"
    using q by (rule list_all2_mono) auto
  from step show ?case
  proof
    assume s: "mapped1 = mapped \<and> cols1 = cols \<and> \<not> (fn = ''foreach'' \<and> v = j)"
    have "\<forall>(k', v') \<in> set (p # imap).
        (\<exists>kv r. map_of inputs k' = Some kv \<and> select kv = ''foreach'' # r) \<and> v' = j \<longrightarrow>
        k' \<in> set deps"
      using a s p kv by auto
    with d s q' show ?thesis by blast
  next
    assume "\<exists>c. mapped1 = mapped @ [k] \<and> cols1 = cols @ [c] \<and>
                (fn = ''foreach'' \<longrightarrow> map_of san k = Some c)"
    then obtain c where c: "mapped1 = mapped @ [k]" "cols1 = cols @ [c]"
      "fn = ''foreach'' \<longrightarrow> map_of san k = Some c" by blast
    have 1: "mapped' = mapped @ (k # deps)" "cols' = cols @ (c # new)"
      using c d by auto
    have "?Q (p # imap) k c" using p kv c(3) by auto
    with q' have 2: "list_all2 (?Q (p # imap)) (k # deps) (c # new)" by simp
    have 3: "\<forall>(k', v') \<in> set (p # imap).
        (\<exists>kv r. map_of inputs k' = Some kv \<and> select kv = ''foreach'' # r) \<and> v' = j \<longrightarrow>
        k' \<in> set (k # deps)"
      using a p by auto
    from 1 2 3 show ?thesis by blast
  qed
qed

lemma sanitise_inputs_lookup:
  "sanitise_inputs inputs abi acc = Inr san \<Longrightarrow>
   map_of san i =
     (if i \<in> fst ` set inputs then map_option sanitised (map_of abi i) else map_of acc i)"
proof (induction inputs arbitrary: acc)
  case Nil
  then show ?case by simp
next
  case (Cons p inputs)
  obtain j jv where p: "p = (j, jv)" by (cases p)
  from Cons.prems p obtain c where c: "map_of abi j = Some c"
    and rest: "sanitise_inputs inputs abi (dict_set acc j (sanitised c)) = Inr san"
    by (auto split: option.splits)
  from Cons.IH [OF rest] show ?case using p c by (auto simp: map_of_dict_set)
qed

lemma sanitised_nonempty: "sanitised c \<noteq> []"
  by (simp add: sanitised_def)

lemma sanitise_inputs_nonempty:
  assumes "sanitise_inputs inputs abi [] = Inr san" and "map_of san k = Some s"
  shows "s \<noteq> []"
proof -
  from sanitise_inputs_lookup [OF assms(1), of k] assms(2)
  have "Some s = map_option sanitised (map_of abi k)" by (auto split: if_splits)
  then obtain c where "s = sanitised c" by (cases "map_of abi k") auto
  then show ?thesis by (simp add: sanitised_nonempty)
qed

lemma those_map_Some: "those (map Some ds) = Some ds"
  by (induction ds) auto

lemma generate_parameter_matrix_rows:
  assumes "generate_parameter_matrix inputs srcs imap arts abi = Inr rows" and "rows \<noteq> []"
  shows "\<exists>san ms ds dims.
           sanitise_inputs inputs abi [] = Inr san \<and>
           all_dimensions inputs san arts imap srcs = Inr (ms, ds) \<and>
           those ds = Some dims \<and>
           build_rows (concat ms) (map concat (itertools_product dims)) = Inr rows"
  using assms
  by (auto simp: generate_parameter_matrix_def
      split: sum.splits bool.splits option.splits prod.splits)

text \<open>Every generated row is a dictionary: no key occurs twice.\<close>

lemma generated_rows_are_dictionaries:
  assumes "generate_parameter_matrix inputs srcs imap arts abi = Inr rows" and "row \<in> set rows"
  shows "distinct (map fst row)"
proof -
  from assms(2) have "rows \<noteq> []" by auto
  from generate_parameter_matrix_rows [OF assms(1) this] obtain ms dims where
    "build_rows (concat ms) (map concat (itertools_product dims)) = Inr rows" by blast
  from build_rows_mem [OF this assms(2)] obtain r where
    "build_row (concat ms) r [] = Inr row" by blast
  then show ?thesis by (rule build_row_distinct) simp
qed



text \<open>
  In the dimension of a \<^verbatim>\<open>foreach\<close> source \<open>j\<close>, wherever the name \<open>i\<close> of an input with
  the sanitised list \<^verbatim>\<open>[None]\<close> stands, as the source itself or as one of its
  \<^verbatim>\<open>foreach\<close> dependents, the fragment holds \<^verbatim>\<open>None\<close>.
\<close>

lemma foreach_dimension_aligned:
  assumes md: "map_dependents inputs san arts j imap ([j], []) = Inr (m, cols)"
    and f: "f \<in> set (merged_input_vector (s # cols))"
    and i: "map_of inputs i = Some iv" "select iv = token # args"
    and sani: "map_of san i = Some [None]"
    and cond: "token = ''foreach'' \<or> i \<notin> fst ` set imap"
    and si: "j = i \<longrightarrow> s = [None]"
  shows "length f = length m \<and>
         (\<forall>(k, x) \<in> set (zip m f). k = i \<longrightarrow> x = Item None \<and> (k = j \<or> token = ''foreach''))"
proof -
  from map_dependents_appends [OF md] obtain deps new where
    m: "m = [j] @ deps" and cols: "cols = [] @ new" and
    q: "list_all2 (\<lambda>k c. k \<in> fst ` set imap \<and>
                  (\<forall>kv r. map_of inputs k = Some kv \<and> select kv = ''foreach'' # r \<longrightarrow>
                     map_of san k = Some c)) deps new" by blast
  from q have len: "length deps = length new" by (rule list_all2_lengthD)
  from f obtain row where row: "row < min_entry_count (s # cols)"
    and fr: "f = map (\<lambda>col. Item (col ! row)) (s # cols)"
    by (auto simp: merged_input_vector_def)
  have l: "length f = length m" using fr m cols len by simp
  have z: "zip m f = (j, Item (s ! row)) # zip deps (map (\<lambda>col. Item (col ! row)) new)"
    using fr m cols by simp
  have "\<forall>(k, x) \<in> set (zip m f). k = i \<longrightarrow> x = Item None \<and> (k = j \<or> token = ''foreach'')"
  proof (clarify)
    fix k x assume kx: "(i, x) \<in> set (zip m f)"
    from kx z consider "i = j \<and> x = Item (s ! row)"
      | "(i, x) \<in> set (zip deps (map (\<lambda>col. Item (col ! row)) new))" by auto
    then show "x = Item None \<and> (i = j \<or> token = ''foreach'')"
    proof cases
      case 1
      with si have s1: "s = [None]" by simp
      from row min_entry_count_le [of s "s # cols"] have "row < length s" by simp
      with s1 have "s ! row = None" by simp
      with 1 show ?thesis by simp
    next
      case 2
      then obtain n where n: "n < length deps" "deps ! n = i" "x = Item (new ! n ! row)"
        using len by (auto simp: set_zip)
      from list_all2_nthD [OF q n(1)] n(2) have
        key: "i \<in> fst ` set imap" and
        col: "\<forall>kv r. map_of inputs i = Some kv \<and> select kv = ''foreach'' # r \<longrightarrow>
                 map_of san i = Some (new ! n)" by auto
      from key cond have tok: "token = ''foreach''" by blast
      with col i have "map_of san i = Some (new ! n)" by simp
      with sani have c1: "new ! n = [None]" by simp
      have "new ! n \<in> set (s # cols)" using n(1) len cols by simp
      from min_entry_count_le [OF this] row have "row < length (new ! n)" by simp
      with c1 have "new ! n ! row = None" by simp
      with n(3) tok show ?thesis by simp
    qed
  qed
  with l show ?thesis by simp
qed

lemma foreach_source_dimension:
  assumes "source_dimension inputs san arts imap j = Inr (m, Some frags)"
    and "map_of inputs j = Some jv" and "select jv = ''foreach'' # r"
  shows "\<exists>s cols. map_of san j = Some s \<and>
           map_dependents inputs san arts j imap ([j], []) = Inr (m, cols) \<and>
           frags = merged_input_vector (s # cols)"
  using assms
  by (auto simp: source_dimension_def combined_dimension_def
      split: option.splits sum.splits)

lemma source_dimension_aligned:
  assumes sd: "source_dimension inputs san arts imap j = Inr (m, Some frags)"
    and i: "map_of inputs i = Some iv" "select iv = token # args"
    and sani: "map_of san i = Some [None]"
    and cond: "token = ''foreach'' \<or> i \<notin> fst ` set imap"
    and nonempty: "\<forall>k s. map_of san k = Some s \<longrightarrow> s \<noteq> []"
  shows "j \<in> set m \<and>
         (\<forall>f \<in> set frags. length f = length m \<and>
            (\<forall>(k, x) \<in> set (zip m f).
               k = i \<longrightarrow> x = (if token = ''all'' then Items [None] else Item None)))"
proof -
  from sd obtain jv where jv: "map_of inputs j = Some jv"
    by (auto simp: source_dimension_def split: option.splits)
  from sd jv obtain fn rest where sel: "select jv = fn # rest"
    by (auto simp: source_dimension_def split: list.splits)
  have tok: "j = i \<Longrightarrow> token = fn" using i jv sel by simp
  have known: "fn = ''foreach'' \<or> fn = ''all'' \<or> fn = ''one''"
    using sd jv sel
    by (auto simp: source_dimension_def combined_dimension_def
        split: option.splits list.splits sum.splits if_splits)
  then consider (foreach) "fn = ''foreach''" | (all) "fn = ''all''" | (one) "fn = ''one''"
    by blast
  then show ?thesis
  proof cases
    case foreach
    from foreach_source_dimension [OF sd jv] sel foreach obtain s cols where
      s: "map_of san j = Some s" and
      md: "map_dependents inputs san arts j imap ([j], []) = Inr (m, cols)" and
      fr: "frags = merged_input_vector (s # cols)" by auto
    have si: "j = i \<longrightarrow> s = [None]" using s sani by auto
    have jm: "j \<in> set m" using map_dependents_appends [OF md] by auto
    have "\<forall>f \<in> set frags. length f = length m \<and>
            (\<forall>(k, x) \<in> set (zip m f).
               k = i \<longrightarrow> x = (if token = ''all'' then Items [None] else Item None))"
    proof
      fix f assume "f \<in> set frags"
      with fr have fm: "f \<in> set (merged_input_vector (s # cols))" by simp
      from foreach_dimension_aligned [OF md fm i sani cond si]
      have l: "length f = length m" and
        a: "\<forall>(k, x) \<in> set (zip m f). k = i \<longrightarrow> x = Item None \<and> (k = j \<or> token = ''foreach'')"
        by auto
      have "\<forall>(k, x) \<in> set (zip m f).
               k = i \<longrightarrow> x = (if token = ''all'' then Items [None] else Item None)"
      proof (clarify)
        fix x assume mem: "(i, x) \<in> set (zip m f)"
        with a have x: "x = Item None" and c: "i = j \<or> token = ''foreach''" by auto
        from c tok foreach have "token = ''foreach''" by auto
        with x show "x = (if token = ''all'' then Items [None] else Item None)" by simp
      qed
      with l show "length f = length m \<and>
            (\<forall>(k, x) \<in> set (zip m f).
               k = i \<longrightarrow> x = (if token = ''all'' then Items [None] else Item None))" by simp
    qed
    with jm show ?thesis by simp
  next
    case all
    from sd jv sel all obtain s where s: "map_of san j = Some s"
      and eq: "m = [j]" "frags = [[Items s]]"
      by (auto simp: source_dimension_def split: option.splits)
    show ?thesis using eq s sani tok all by auto
  next
    case one
    from sd jv sel one obtain s where s: "map_of san j = Some s"
      and eq: "m = [j]" "frags = [map Item (take 1 s)]"
      by (auto simp: source_dimension_def split: option.splits)
    from s nonempty have "s \<noteq> []" by blast
    then obtain a s' where "s = a # s'" by (cases s) auto
    then show ?thesis using eq s sani tok one by auto
  qed
qed


text \<open>
  When every key of the iteration map is a \<^verbatim>\<open>foreach\<close> input with a non-empty
  sanitised list, the loop over the map raises nothing and appends non-empty columns.
\<close>

lemma map_dependents_foreach_ok:
  assumes "\<forall>(k, v) \<in> set imap.
             \<exists>kv r c. map_of inputs k = Some kv \<and> select kv = ''foreach'' # r \<and>
                        map_of san k = Some c \<and> c \<noteq> []"
  shows "\<exists>deps new. map_dependents inputs san arts j imap (mapped, cols)
                       = Inr (mapped @ deps, cols @ new) \<and>
           length deps = length new \<and> (\<forall>c \<in> set new. c \<noteq> [])"
  using assms
proof (induction imap arbitrary: mapped cols)
  case Nil
  then show ?case by simp
next
  case (Cons p imap)
  obtain k v where p: "p = (k, v)" by (cases p)
  from Cons.prems p obtain kv r c where
    k: "map_of inputs k = Some kv" "select kv = ''foreach'' # r" "map_of san k = Some c" "c \<noteq> []"
    by auto
  from Cons.prems have rest: "\<forall>(k, v) \<in> set imap.
             \<exists>kv r c. map_of inputs k = Some kv \<and> select kv = ''foreach'' # r \<and>
                        map_of san k = Some c \<and> c \<noteq> []" by simp
  show ?case
  proof (cases "v = j")
    case True
    from Cons.IH [OF rest, of "mapped @ [k]" "cols @ [c]"] obtain deps new where
      d: "map_dependents inputs san arts j imap (mapped @ [k], cols @ [c])
            = Inr ((mapped @ [k]) @ deps, (cols @ [c]) @ new)"
         "length deps = length new" "\<forall>c \<in> set new. c \<noteq> []" by blast
    have "map_dependents inputs san arts j (p # imap) (mapped, cols)
            = Inr (mapped @ (k # deps), cols @ (c # new))"
      using p k True d(1) by simp
    moreover have "length (k # deps) = length (c # new)" using d(2) by simp
    moreover have "\<forall>c' \<in> set (c # new). c' \<noteq> []" using d(3) k(4) by simp
    ultimately show ?thesis by blast
  next
    case False
    from Cons.IH [OF rest, of mapped cols] obtain deps new where
      d: "map_dependents inputs san arts j imap (mapped, cols) = Inr (mapped @ deps, cols @ new)"
         "length deps = length new" "\<forall>c \<in> set new. c \<noteq> []" by blast
    have "map_dependents inputs san arts j (p # imap) (mapped, cols)
            = Inr (mapped @ deps, cols @ new)"
      using p k False d(1) by simp
    with d(2,3) show ?thesis by blast
  qed
qed

lemma recognised_dimension:
  assumes j: "map_of inputs j = Some jv" "select jv = tok # as"
    and tok: "tok = ''foreach'' \<or> tok = ''one'' \<or> tok = ''all''"
    and s: "map_of san j = Some s" "s \<noteq> []"
    and deps: "\<forall>(k, v) \<in> set imap.
             \<exists>kv r c. map_of inputs k = Some kv \<and> select kv = ''foreach'' # r \<and>
                        map_of san k = Some c \<and> c \<noteq> []"
  shows "\<exists>m d. source_dimension inputs san arts imap j = Inr (m, Some d) \<and> d \<noteq> [] \<and>
              (\<forall>f \<in> set d. length f = length m)"
proof -
  from s(2) obtain a s' where sc: "s = a # s'" by (cases s) auto
  from tok consider "tok = ''foreach''" | "tok = ''one''" | "tok = ''all''" by blast
  then show ?thesis
  proof cases
    case 1
    from map_dependents_foreach_ok [OF deps, of arts j "[j]" "[]"] obtain dp new where
      md: "map_dependents inputs san arts j imap ([j], []) = Inr ([j] @ dp, [] @ new)" and
      len: "length dp = length new" and ne: "\<forall>c \<in> set new. c \<noteq> []" by blast
    have sd: "source_dimension inputs san arts imap j
                = Inr (j # dp, Some (merged_input_vector (s # new)))"
      using j s(1) 1 md by (simp add: source_dimension_def combined_dimension_def)
    have "0 < min_entry_count (s # new)"
      using s(2) ne by (intro min_entry_count_positive) auto
    then have "merged_input_vector (s # new) \<noteq> []"
      by (simp add: merged_input_vector_def)
    moreover have "\<forall>f \<in> set (merged_input_vector (s # new)). length f = length (j # dp)"
      using len by (auto simp: merged_input_vector_def)
    ultimately show ?thesis using sd by blast
  next
    case 2
    then show ?thesis using j s(1) sc by (simp add: source_dimension_def)
  next
    case 3
    then show ?thesis using j s(1) sc by (simp add: source_dimension_def)
  qed
qed

lemma all_dimensions_ok:
  assumes "\<forall>j \<in> set srcs. \<exists>m d. source_dimension inputs san arts imap j = Inr (m, Some d) \<and>
             d \<noteq> [] \<and> (\<forall>f \<in> set d. length f = length m)"
  shows "\<exists>ms ds. all_dimensions inputs san arts imap srcs = Inr (ms, map Some ds) \<and>
           list_all2 (\<lambda>m d. d \<noteq> [] \<and> (\<forall>f \<in> set d. length f = length m)) ms ds"
  using assms
proof (induction srcs)
  case Nil
  then show ?case by simp
next
  case (Cons j srcs)
  from Cons.prems obtain m d where d: "source_dimension inputs san arts imap j = Inr (m, Some d)"
    "d \<noteq> []" "\<forall>f \<in> set d. length f = length m" by auto
  from Cons obtain ms ds where ds:
    "all_dimensions inputs san arts imap srcs = Inr (ms, map Some ds)"
    "list_all2 (\<lambda>m d. d \<noteq> [] \<and> (\<forall>f \<in> set d. length f = length m)) ms ds"
    by auto
  have "all_dimensions inputs san arts imap (j # srcs) = Inr (m # ms, map Some (d # ds))"
    using d(1) ds(1) by simp
  moreover have "list_all2 (\<lambda>m d. d \<noteq> [] \<and> (\<forall>f \<in> set d. length f = length m))
                   (m # ms) (d # ds)"
    using d(2,3) ds(2) by simp
  ultimately show ?case by blast
qed

lemma concat_aligned_length:
  "list_all2 (\<lambda>m d. d \<noteq> [] \<and> (\<forall>f \<in> set d. length f = length m)) ms ds \<Longrightarrow>
   list_all2 (\<lambda>f d. f \<in> set d) t ds \<Longrightarrow>
   length (concat t) = length (concat ms)"
proof (induction arbitrary: t rule: list_all2_induct)
  case Nil
  then show ?case by simp
next
  case (Cons m ms d ds)
  from Cons.prems obtain f t' where t: "t = f # t'" "f \<in> set d"
    "list_all2 (\<lambda>f d. f \<in> set d) t' ds"
    by (cases t) auto
  from Cons.IH [OF t(3)] Cons.hyps(1) t(1,2) show ?case by simp
qed

lemma all_dimensions_nonempty:
  "list_all2 (\<lambda>m d. d \<noteq> [] \<and> (\<forall>f \<in> set d. length f = length m)) ms ds \<Longrightarrow>
   \<forall>d \<in> set ds. d \<noteq> []"
  by (induction rule: list_all2_induct) auto


text \<open>
  Claim C10, as stated, fails, in four ways. For a non-required \<^verbatim>\<open>all\<close> source without
  candidates the row holds the list \<^verbatim>\<open>[None]\<close>, not \<^verbatim>\<open>None\<close>. For a non-required
  \<^verbatim>\<open>from\<close> input without candidates the row holds the value read from the recorded
  inputs of the governing artefact, here \<^verbatim>\<open>p9\<close>. A non-required \<^verbatim>\<open>foreach\<close> dependent
  without candidates whose group reference is a \<^verbatim>\<open>one\<close> source is attached to no
  dimension, and an input with an unrecognised mode token is in neither registry: the
  rows have no key for either.
\<close>

theorem empty_optional_input_counterexample:
  "generate_parameter_matrix [(''A'', mk_input [''all''] False)] [''A''] [] [] [(''A'', [])]
     = Inr [[(''A'', Items [None])]]
   \<and> generate_parameter_matrix
       [(''A'', mk_input [''foreach''] True), (''C'', mk_input [''from'', ''A/x''] False)]
       [''A''] [(''C'', ''A/x'')] [(''a1'', mk_artefact ''a1'' (Some [(''x'', ''p9'')]))]
       [(''A'', [''a1'']), (''C'', [])]
     = Inr [[(''A'', Item (Some ''a1'')), (''C'', Item (Some ''p9''))]]
   \<and> generate_parameter_matrix
       [(''A'', mk_input [''one''] True), (''B'', mk_input [''foreach'', ''A''] False)]
       [''A''] [(''B'', ''A'')] [] [(''A'', [''a1'']), (''B'', [])]
     = Inr [[(''A'', Item (Some ''a1''))]]
   \<and> generate_parameter_matrix [(''X'', mk_input [''any''] False)] [] [] [] [(''X'', [])]
     = Inr [[]]"
  by (simp add: generate_parameter_matrix_def mk_input_def mk_artefact_def mk_assessor_def
      sanitised_def source_dimension_def combined_dimension_def merged_input_vector_def
      min_entry_count_def str_split_def)

text \<open>
  Claim C10, amended. For every input \<open>i\<close> of the specification with an empty
  candidate list, the sanitised candidate list is \<^verbatim>\<open>[None]\<close>. Every row of every matrix
  that \<^verbatim>\<open>generate_parameter_matrix\<close> returns then has the key \<open>i\<close>, bound to \<^verbatim>\<open>None\<close>,
  when the directive of \<open>i\<close> is \<^verbatim>\<open>foreach\<close> and \<open>i\<close> is an iteration source or a dependent
  whose group reference is a \<^verbatim>\<open>foreach\<close> iteration source, and when \<open>i\<close> is a \<^verbatim>\<open>one\<close>
  iteration source; it has the key \<open>i\<close> bound to the list \<^verbatim>\<open>[None]\<close> when \<open>i\<close> is an
  \<^verbatim>\<open>all\<close> iteration source (a \<^verbatim>\<open>one\<close> or \<^verbatim>\<open>all\<close> source being no key of the iteration
  map, as for unique input names). A required \<open>i\<close> gives the empty matrix, which has no
  rows. Moreover, when every dependent is a \<^verbatim>\<open>foreach\<close> input, no required input lacks
  candidates and every source has the directive \<^verbatim>\<open>foreach\<close>, \<^verbatim>\<open>one\<close> or \<^verbatim>\<open>all\<close>, the
  matrix is returned without error and has at least one row.
\<close>

theorem empty_optional_input_maps_to_null:
  assumes i: "map_of inputs i = Some iv"
    and empty: "map_of artefacts_by_input i = Some []"
  shows "(\<forall>san. sanitise_inputs inputs artefacts_by_input [] = Inr san \<longrightarrow>
            map_of san i = Some [None])
       \<and> (select iv = token # args \<and>
          (i \<in> set iteration_sources \<and>
             (token = ''foreach'' \<or> i \<notin> fst ` set iteration_map) \<or>
           token = ''foreach'' \<and>
             (\<exists>g gv r. (i, g) \<in> set iteration_map \<and> g \<in> set iteration_sources \<and>
                map_of inputs g = Some gv \<and> select gv = ''foreach'' # r)) \<longrightarrow>
          (\<forall>rows row.
             generate_parameter_matrix inputs iteration_sources iteration_map artefacts
               artefacts_by_input = Inr rows \<and> row \<in> set rows \<longrightarrow>
             map_of row i = Some (if token = ''all'' then Items [None] else Item None)))
       \<and> ((\<forall>(k, v) \<in> set iteration_map.
             \<exists>kv r. map_of inputs k = Some kv \<and> select kv = ''foreach'' # r) \<and>
          (\<forall>(j, jv) \<in> set inputs.
             \<exists>c. map_of artefacts_by_input j = Some c \<and> \<not> (c = [] \<and> required jv)) \<and>
          (\<forall>j \<in> set iteration_sources.
             \<exists>jv tok as. map_of inputs j = Some jv \<and> select jv = tok # as \<and>
               (tok = ''foreach'' \<or> tok = ''one'' \<or> tok = ''all'')) \<longrightarrow>
          (\<exists>rows. generate_parameter_matrix inputs iteration_sources iteration_map artefacts
                     artefacts_by_input = Inr rows \<and> rows \<noteq> []))"
proof (intro conjI allI impI)
  fix san assume "sanitise_inputs inputs artefacts_by_input [] = Inr san"
  from sanitise_inputs_lookup [OF this, of i] i empty
  show "map_of san i = Some [None]"
    by (auto simp: sanitised_def dest: map_of_SomeD intro: rev_image_eqI)
next
  fix rows row
  let ?V = "if token = ''all'' then Items [None] else Item None"
  assume h: "select iv = token # args \<and>
          (i \<in> set iteration_sources \<and>
             (token = ''foreach'' \<or> i \<notin> fst ` set iteration_map) \<or>
           token = ''foreach'' \<and>
             (\<exists>g gv r. (i, g) \<in> set iteration_map \<and> g \<in> set iteration_sources \<and>
                map_of inputs g = Some gv \<and> select gv = ''foreach'' # r))"
  assume a: "generate_parameter_matrix inputs iteration_sources iteration_map artefacts
              artefacts_by_input = Inr rows \<and> row \<in> set rows"
  from h have sel: "select iv = token # args" by simp
  from h have cond: "token = ''foreach'' \<or> i \<notin> fst ` set iteration_map" by auto
  from a have "rows \<noteq> []" by auto
  from generate_parameter_matrix_rows [OF conjunct1 [OF a] this] obtain san ms ds dims where
    san: "sanitise_inputs inputs artefacts_by_input [] = Inr san" and
    ad: "all_dimensions inputs san artefacts iteration_map iteration_sources = Inr (ms, ds)" and
    th: "those ds = Some dims" and
    br: "build_rows (concat ms) (map concat (itertools_product dims)) = Inr rows" by blast
  from sanitise_inputs_lookup [OF san, of i] i empty
  have sani: "map_of san i = Some [None]"
    by (auto simp: sanitised_def dest: map_of_SomeD intro: rev_image_eqI)
  have nonempty: "\<forall>k s. map_of san k = Some s \<longrightarrow> s \<noteq> []"
    using sanitise_inputs_nonempty [OF san] by blast
  from those_Some [OF th] have ds: "ds = map Some dims" .
  from all_dimensions_each [OF ad] have
    lens: "length ms = length iteration_sources" "length ds = length iteration_sources" and
    each: "\<forall>n < length iteration_sources.
             source_dimension inputs san artefacts iteration_map (iteration_sources ! n)
               = Inr (ms ! n, ds ! n)" by auto
  have dims_len: "length dims = length iteration_sources" using lens ds by simp
  have dim: "source_dimension inputs san artefacts iteration_map (iteration_sources ! n)
         = Inr (ms ! n, Some (dims ! n))" if "n < length iteration_sources" for n
    using that each ds dims_len by simp
  have al: "\<forall>n < length iteration_sources.
              iteration_sources ! n \<in> set (ms ! n) \<and>
              (\<forall>f \<in> set (dims ! n). length f = length (ms ! n) \<and>
                 (\<forall>(k, x) \<in> set (zip (ms ! n) f). k = i \<longrightarrow> x = ?V))"
  proof (intro allI impI)
    fix n assume n: "n < length iteration_sources"
    from source_dimension_aligned [OF dim [OF n] i sel sani cond nonempty]
    show "iteration_sources ! n \<in> set (ms ! n) \<and>
              (\<forall>f \<in> set (dims ! n). length f = length (ms ! n) \<and>
                 (\<forall>(k, x) \<in> set (zip (ms ! n) f). k = i \<longrightarrow> x = ?V))" .
  qed
  have headers: "i \<in> set (concat ms)"
  proof -
    from h consider (source) "i \<in> set iteration_sources"
      | (dependent) "token = ''foreach''" "\<exists>g gv r. (i, g) \<in> set iteration_map \<and>
            g \<in> set iteration_sources \<and> map_of inputs g = Some gv \<and> select gv = ''foreach'' # r"
      by blast
    then show ?thesis
    proof cases
      case source
      then obtain n where n: "n < length iteration_sources" "iteration_sources ! n = i"
        by (auto simp: in_set_conv_nth)
      with al have "i \<in> set (ms ! n)" by auto
      with n lens show ?thesis by (auto intro: nth_mem)
    next
      case dependent
      then obtain g gv r where g: "(i, g) \<in> set iteration_map" "g \<in> set iteration_sources"
        "map_of inputs g = Some gv" "select gv = ''foreach'' # r" by blast
      from g(2) obtain n where n: "n < length iteration_sources" "iteration_sources ! n = g"
        by (auto simp: in_set_conv_nth)
      from dim [OF n(1)] n(2) have
        "source_dimension inputs san artefacts iteration_map g = Inr (ms ! n, Some (dims ! n))"
        by simp
      from foreach_source_dimension [OF this g(3,4)] obtain cols where
        md: "map_dependents inputs san artefacts g iteration_map ([g], []) = Inr (ms ! n, cols)"
        by blast
      from map_dependents_appends [OF md] obtain deps where
        m: "ms ! n = [g] @ deps" and
        att: "\<forall>(k, v) \<in> set iteration_map.
                (\<exists>kv r. map_of inputs k = Some kv \<and> select kv = ''foreach'' # r) \<and> v = g \<longrightarrow>
                k \<in> set deps" by blast
      from att g(1) i sel dependent(1) have "i \<in> set deps" by auto
      with m have "i \<in> set (ms ! n)" by simp
      with n lens show ?thesis by (auto intro: nth_mem)
    qed
  qed
  from build_rows_mem [OF br conjunct2 [OF a]] obtain t where
    t: "t \<in> set (itertools_product dims)" and
    row: "build_row (concat ms) (concat t) [] = Inr row" by auto
  from itertools_product_mem [OF t] have tm: "list_all2 (\<lambda>f d. f \<in> set d) t dims" .
  have "list_all2 (\<lambda>m f. length f = length m \<and>
                     (\<forall>(k, x) \<in> set (zip m f). k = i \<longrightarrow> x = ?V)) ms t"
  proof (rule list_all2_all_nthI)
    show "length ms = length t" using tm lens dims_len by (simp add: list_all2_lengthD)
  next
    fix n assume "n < length ms"
    with lens have n: "n < length iteration_sources" by simp
    with dims_len have "n < length dims" by simp
    from list_all2_nthD2 [OF tm this] have "t ! n \<in> set (dims ! n)" .
    with al n show "length (t ! n) = length (ms ! n) \<and>
                     (\<forall>(k, x) \<in> set (zip (ms ! n) (t ! n)). k = i \<longrightarrow> x = ?V)" by blast
  qed
  from zip_concat_aligned [OF this]
  have zc: "\<forall>(k, x) \<in> set (zip (concat ms) (concat t)). k = i \<longrightarrow> x = ?V" by blast
  from build_row_lookup [OF row, of i] headers obtain x where
    "map_of row i = Some x" "(i, x) \<in> set (zip (concat ms) (concat t))" by blast
  with zc show "map_of row i = Some ?V" by auto
next
  assume a: "(\<forall>(k, v) \<in> set iteration_map.
             \<exists>kv r. map_of inputs k = Some kv \<and> select kv = ''foreach'' # r) \<and>
          (\<forall>(j, jv) \<in> set inputs.
             \<exists>c. map_of artefacts_by_input j = Some c \<and> \<not> (c = [] \<and> required jv)) \<and>
          (\<forall>j \<in> set iteration_sources.
             \<exists>jv tok as. map_of inputs j = Some jv \<and> select jv = tok # as \<and>
               (tok = ''foreach'' \<or> tok = ''one'' \<or> tok = ''all''))"
  then have im: "\<forall>(k, v) \<in> set iteration_map.
             \<exists>kv r. map_of inputs k = Some kv \<and> select kv = ''foreach'' # r"
    and gate: "\<forall>(j, jv) \<in> set inputs.
             \<exists>c. map_of artefacts_by_input j = Some c \<and> \<not> (c = [] \<and> required jv)"
    and recognised: "\<forall>j \<in> set iteration_sources.
             \<exists>jv tok as. map_of inputs j = Some jv \<and> select jv = tok # as \<and>
               (tok = ''foreach'' \<or> tok = ''one'' \<or> tok = ''all'')" by blast+
  have present: "inputs_present inputs artefacts_by_input = Inr True"
    using gate by (rule inputs_present_True)
  have "\<forall>(j, jv) \<in> set inputs. map_of artefacts_by_input j \<noteq> None" using gate by auto
  from sanitise_inputs_result [OF this, of "[]"] obtain san where
    san: "sanitise_inputs inputs artefacts_by_input [] = Inr san" by blast
  have lookup: "\<exists>c. map_of san j = Some c \<and> c \<noteq> []" if "map_of inputs j = Some jv" for j jv
  proof -
    from that have mem: "(j, jv) \<in> set inputs" by (rule map_of_SomeD)
    then have "j \<in> fst ` set inputs" by (metis fst_conv image_eqI)
    moreover from mem gate obtain c where "map_of artefacts_by_input j = Some c"
      by fastforce
    ultimately have "map_of san j = Some (sanitised c)"
      using sanitise_inputs_lookup [OF san, of j] by simp
    then show ?thesis using sanitised_nonempty by blast
  qed
  have deps: "\<forall>(k, v) \<in> set iteration_map.
             \<exists>kv r c. map_of inputs k = Some kv \<and> select kv = ''foreach'' # r \<and>
                        map_of san k = Some c \<and> c \<noteq> []"
  proof (clarify)
    fix k v assume "(k, v) \<in> set iteration_map"
    with im obtain kv r where kv: "map_of inputs k = Some kv" "select kv = ''foreach'' # r"
      by fastforce
    from lookup [OF kv(1)] kv
    show "\<exists>kv r c. map_of inputs k = Some kv \<and> select kv = ''foreach'' # r \<and>
                        map_of san k = Some c \<and> c \<noteq> []" by blast
  qed
  have "\<forall>j \<in> set iteration_sources.
          \<exists>m d. source_dimension inputs san artefacts iteration_map j = Inr (m, Some d) \<and>
             d \<noteq> [] \<and> (\<forall>f \<in> set d. length f = length m)"
  proof
    fix j assume "j \<in> set iteration_sources"
    with recognised obtain jv tok as where j: "map_of inputs j = Some jv" "select jv = tok # as"
      and tok: "tok = ''foreach'' \<or> tok = ''one'' \<or> tok = ''all''" by blast
    from lookup [OF j(1)] obtain c where c: "map_of san j = Some c" "c \<noteq> []" by blast
    from recognised_dimension [OF j tok c deps]
    show "\<exists>m d. source_dimension inputs san artefacts iteration_map j = Inr (m, Some d) \<and>
             d \<noteq> [] \<and> (\<forall>f \<in> set d. length f = length m)" .
  qed
  from all_dimensions_ok [OF this] obtain ms ds where
    ad: "all_dimensions inputs san artefacts iteration_map iteration_sources
           = Inr (ms, map Some ds)" and
    ok: "list_all2 (\<lambda>m d. d \<noteq> [] \<and> (\<forall>f \<in> set d. length f = length m)) ms ds" by blast
  have "\<forall>r \<in> set (map concat (itertools_product ds)). length (concat ms) \<le> length r"
  proof
    fix r assume "r \<in> set (map concat (itertools_product ds))"
    then obtain t where t: "t \<in> set (itertools_product ds)" and r: "r = concat t" by auto
    from concat_aligned_length [OF ok itertools_product_mem [OF t]] r
    show "length (concat ms) \<le> length r" by simp
  qed
  from build_rows_ok [OF this] obtain rows where
    rows: "build_rows (concat ms) (map concat (itertools_product ds)) = Inr rows"
    and rl: "length rows = length (map concat (itertools_product ds))" by blast
  from all_dimensions_nonempty [OF ok] have "itertools_product ds \<noteq> []"
    by (rule itertools_product_nonempty)
  with rl have "rows \<noteq> []" by auto
  moreover have "generate_parameter_matrix inputs iteration_sources iteration_map artefacts
                     artefacts_by_input = Inr rows"
    using rows
    by (simp add: generate_parameter_matrix_def present san ad those_map_Some
        del: itertools_product.simps all_dimensions.simps)
  ultimately show "\<exists>rows. generate_parameter_matrix inputs iteration_sources iteration_map
                     artefacts artefacts_by_input = Inr rows \<and> rows \<noteq> []" by blast
qed


theorem empty_optional_input_maps_to_null_witness:
  "generate_parameter_matrix
     [(''A'', mk_input [''foreach''] True), (''B'', mk_input [''foreach'', ''A''] False)]
     [''A''] [(''B'', ''A'')] [] [(''A'', [''a1'', ''a2'', ''a3'']), (''B'', [])]
     = Inr [[(''A'', Item (Some ''a1'')), (''B'', Item None)]]
   \<and> map_of [(''A'', Item (Some ''a1'')), (''B'', Item None)] ''B'' = Some (Item None)
   \<and> generate_parameter_matrix
       [(''A'', mk_input [''foreach''] False), (''B'', mk_input [''one''] True)]
       [''A'', ''B''] [] [] [(''A'', []), (''B'', [''b1'', ''b2''])]
     = Inr [[(''A'', Item None), (''B'', Item (Some ''b1''))]]
   \<and> map_of [(''A'', Item None), (''B'', Item (Some ''b1''))] ''A'' = Some (Item None)"
proof -
  let ?inputs1 = "[(''A'', mk_input [''foreach''] True), (''B'', mk_input [''foreach'', ''A''] False)]"
  let ?abi1 = "[(''A'', [''a1'', ''a2'', ''a3'']), (''B'', [])]"
  let ?row1 = "[(''A'', Item (Some ''a1'')), (''B'', Item None)]"
  have i1: "map_of ?inputs1 ''B'' = Some (mk_input [''foreach'', ''A''] False)" by simp
  have e1: "map_of ?abi1 ''B'' = Some []" by simp
  have g1: "generate_parameter_matrix ?inputs1 [''A''] [(''B'', ''A'')] [] ?abi1 = Inr [?row1]"
    by (simp add: generate_parameter_matrix_def mk_input_def sanitised_def source_dimension_def
        combined_dimension_def merged_input_vector_def min_entry_count_def)
  have c1: "select (mk_input [''foreach'', ''A''] False) = ''foreach'' # [''A''] \<and>
          (''B'' \<in> set [''A''] \<and>
             (''foreach'' = ''foreach'' \<or> ''B'' \<notin> fst ` set [(''B'', ''A'')]) \<or>
           ''foreach'' = ''foreach'' \<and>
             (\<exists>g gv r. (''B'', g) \<in> set [(''B'', ''A'')] \<and> g \<in> set [''A''] \<and>
                map_of ?inputs1 g = Some gv \<and> select gv = ''foreach'' # r))"
    by (simp add: mk_input_def)
  have r1: "generate_parameter_matrix ?inputs1 [''A''] [(''B'', ''A'')] [] ?abi1 = Inr [?row1]
             \<and> ?row1 \<in> set [?row1]" using g1 by simp
  note t1 = empty_optional_input_maps_to_null [OF i1 e1, of "''foreach''" "[''A'']" "[''A'']"
      "[(''B'', ''A'')]" "[]"]
  from t1 [THEN conjunct2, THEN conjunct1, rule_format, OF c1 r1]
  have "map_of ?row1 ''B'' = Some (if ''foreach'' = ''all'' then Items [None] else Item None)" .
  then have m1: "map_of ?row1 ''B'' = Some (Item None)" by simp
  let ?inputs2 = "[(''A'', mk_input [''foreach''] False), (''B'', mk_input [''one''] True)]"
  let ?abi2 = "[(''A'', []), (''B'', [''b1'', ''b2''])]"
  let ?row2 = "[(''A'', Item None), (''B'', Item (Some ''b1''))]"
  have i2: "map_of ?inputs2 ''A'' = Some (mk_input [''foreach''] False)" by simp
  have e2: "map_of ?abi2 ''A'' = Some []" by simp
  have g2: "generate_parameter_matrix ?inputs2 [''A'', ''B''] [] [] ?abi2 = Inr [?row2]"
    by (simp add: generate_parameter_matrix_def mk_input_def sanitised_def source_dimension_def
        combined_dimension_def merged_input_vector_def min_entry_count_def)
  have c2: "select (mk_input [''foreach''] False) = ''foreach'' # [] \<and>
          (''A'' \<in> set [''A'', ''B''] \<and>
             (''foreach'' = ''foreach'' \<or> ''A'' \<notin> fst ` set ([] :: (string \<times> string) list)) \<or>
           ''foreach'' = ''foreach'' \<and>
             (\<exists>g gv r. (''A'', g) \<in> set ([] :: (string \<times> string) list) \<and>
                g \<in> set [''A'', ''B''] \<and>
                map_of ?inputs2 g = Some gv \<and> select gv = ''foreach'' # r))"
    by (simp add: mk_input_def)
  have r2: "generate_parameter_matrix ?inputs2 [''A'', ''B''] [] [] ?abi2 = Inr [?row2]
             \<and> ?row2 \<in> set [?row2]" using g2 by simp
  note t2 = empty_optional_input_maps_to_null [OF i2 e2, of "''foreach''" "[]" "[''A'', ''B'']"
      "[]" "[]"]
  from t2 [THEN conjunct2, THEN conjunct1, rule_format, OF c2 r2]
  have "map_of ?row2 ''A'' = Some (if ''foreach'' = ''all'' then Items [None] else Item None)" .
  then have m2: "map_of ?row2 ''A'' = Some (Item None)" by simp
  from g1 m1 g2 m2 show ?thesis by blast
qed

end
